theory Spec2Isabelle
  imports Complex_Main "HOL-Library.Multiset"
begin

section \<open>Data model\<close>

text \<open>
  Modelled from the spec: \<^verbatim>\<open>os/Os.hpp\<close> (the declarations of \<^verbatim>\<open>Os::EventKind\<close>,
  \<^verbatim>\<open>Os::Event\<close> and \<^verbatim>\<open>Os::Process\<close>) is not part of the sources at hand. The
  fields are the ones the scheduler and the interpreter read and write. A process is
  constructed from \<open>(name, pid, arrival, events)\<close>; both optional times start absent.
  The \<^verbatim>\<open>float\<close> field \<open>resource_usage\<close> is only ever copied, so it is kept as a
  real number.
\<close>

datatype EventKind = Cpu | Io

record Event =
  kind :: EventKind
  duration :: nat
  resource_usage :: real

record Process =
  name :: string
  pid :: nat
  arrival :: nat
  events :: "Event list"
  start_time :: "nat option"
  finish_time :: "nat option"

text \<open>
  Modelled from the spec: the constructor of \<^verbatim>\<open>Os::Process\<close> (\<^verbatim>\<open>os/Os.hpp\<close> is
  not part of the sources at hand), as \<^verbatim>\<open>emplace_process\<close> calls it.
\<close>

definition make_process :: "string \<Rightarrow> nat \<Rightarrow> nat \<Rightarrow> Event list \<Rightarrow> Process" where
  "make_process n p a es =
     \<lparr>name = n, pid = p, arrival = a, events = es, start_time = None, finish_time = None\<rparr>"

text \<open>The two policy objects of \<^verbatim>\<open>Scheduler.hpp\<close>; Round-Robin carries its quantum.\<close>

datatype SchedulePolicy = FirstComeFirstServed | RoundRobin

datatype PolicyFn = FirstComeFirstServedPolicy | RoundRobinPolicy nat

record NamedSchedulePolicy =
  policy_callback :: PolicyFn
  policy_kind :: SchedulePolicy
  policy_name :: string

text \<open>
  What the engine and the interpreter write to the standard error stream (the message
  kinds with their arguments, not the formatted text), and the ways a call can stop
  other than by returning: a failed \<^verbatim>\<open>assert\<close>, an index outside a fixed array or
  vector, a remainder by zero.
\<close>

datatype Diagnostic =
    ErrPidInUse string nat
  | ErrNoEvents string nat
  | ErrMismatchedArgc string nat
  | ErrMismatchedType nat string string
  | NoteEventsExample
  | ErrInvalidConstant string
  | NoteAvailableConstants

datatype fault = AssertionFailed | OutOfBounds | DivisionByZero

text \<open>
  \<^verbatim>\<open>ProcessPtr\<close> is a shared pointer: the processes live in a store (\<open>heap\<close>, an
  address is an index into it, \<^verbatim>\<open>make_shared\<close> appends) and every queue holds
  addresses. A shared pointer held by a queue keeps its target alive, so an address found
  in a queue is always allocated. The fixed arrays of \<open>MAX_THREADS\<close> slots are functions
  from the slot index; every access checks the index against \<open>MAX_THREADS\<close>.
  \<open>size_t\<close> counters are natural numbers (the timer would need \<open>2 ^ 64\<close> ticks to
  wrap); the subtractions of the metrics wrap as in the source. \<open>stderr_log\<close> is not a
  member of the struct: it collects what the calls print to the standard error stream.
\<close>

definition MAX_THREADS :: nat where
  "MAX_THREADS = 9"

definition SIZE_MAX :: nat where
  "SIZE_MAX = 2 ^ 64 - 1"

record Scheduler =
  heap :: "Process list"
  running :: "nat \<Rightarrow> nat option"
  processes :: "nat \<Rightarrow> nat list"
  waiting :: "nat \<Rightarrow> nat list"
  ready :: "nat \<Rightarrow> nat list"
  schedule_policy :: NamedSchedulePolicy
  timer :: nat
  cpu_usage :: "nat \<Rightarrow> real"
  max_processes :: nat
  max_events_per_process :: nat
  max_single_event_duration :: nat
  max_arrival_time :: nat
  threads_count :: nat
  next_thread :: nat
  throughput :: real
  previous_finished_count :: nat
  finished :: "nat list"
  processes_backup :: "nat \<Rightarrow> Process list"
  valid_backup :: bool
  stderr_log :: "Diagnostic list"

definition policy_name_from_kind :: "SchedulePolicy \<Rightarrow> string" where
  "policy_name_from_kind policy =
     (case policy of
        FirstComeFirstServed \<Rightarrow> ''First Come First Served''
      | RoundRobin \<Rightarrow> ''Round Robin'')"

text \<open>
  \<^verbatim>\<open>named_scheduler_from_policy\<close>, called without policy arguments: the quantum is 5.
  The name is the text the formatter of \<^verbatim>\<open>SchedulePolicy\<close> prints, the same two
  strings as \<^verbatim>\<open>policy_name_from_kind\<close>. \<^verbatim>\<open>try_policy_from_str\<close> prints the
  unknown name on standard output; the caller records it.
\<close>

definition named_scheduler_from_policy :: "SchedulePolicy \<Rightarrow> NamedSchedulePolicy" where
  "named_scheduler_from_policy policy =
     (case policy of
        FirstComeFirstServed \<Rightarrow>
          \<lparr>policy_callback = FirstComeFirstServedPolicy, policy_kind = policy,
           policy_name = policy_name_from_kind policy\<rparr>
      | RoundRobin \<Rightarrow>
          \<lparr>policy_callback = RoundRobinPolicy 5, policy_kind = policy,
           policy_name = policy_name_from_kind policy\<rparr>)"

definition try_policy_from_str :: "string \<Rightarrow> SchedulePolicy option" where
  "try_policy_from_str str =
     (if str \<in> {''FCFS'', ''FIFO'', ''FirstComeFirstServed'', ''FirstInFirstOut''}
      then Some FirstComeFirstServed
      else if str \<in> {''RR'', ''RoundRobin''} then Some RoundRobin
      else None)"

text \<open>The constructor \<^verbatim>\<open>Scheduler(policy)\<close> with the default member initialisers.\<close>

definition new_scheduler :: "NamedSchedulePolicy \<Rightarrow> Scheduler" where
  "new_scheduler policy =
     \<lparr>heap = [], running = (\<lambda>_. None), processes = (\<lambda>_. []), waiting = (\<lambda>_. []),
      ready = (\<lambda>_. []), schedule_policy = policy, timer = 0, cpu_usage = (\<lambda>_. 0),
      max_processes = SIZE_MAX, max_events_per_process = SIZE_MAX,
      max_single_event_duration = SIZE_MAX, max_arrival_time = SIZE_MAX,
      threads_count = MAX_THREADS, next_thread = 0, throughput = 0,
      previous_finished_count = 0, finished = [], processes_backup = (\<lambda>_. []),
      valid_backup = False, stderr_log = []\<rparr>"

definition switch_schedule_policy :: "NamedSchedulePolicy \<Rightarrow> Scheduler \<Rightarrow> Scheduler" where
  "switch_schedule_policy policy s = s\<lparr>schedule_policy := policy\<rparr>"

section \<open>Scheduler operations\<close>

text \<open>\<^verbatim>\<open>std::make_shared<Os::Process>(p)\<close>: a fresh address holding a copy of \<open>p\<close>.\<close>

definition make_shared :: "Process \<Rightarrow> Scheduler \<Rightarrow> nat \<times> Scheduler" where
  "make_shared p s = (length (heap s), s\<lparr>heap := heap s @ [p]\<rparr>)"

text \<open>
  \<^verbatim>\<open>restart\<close>: the inner loop pushes a fresh copy of every backed-up process of one
  slot; the outer loop visits the \<open>MAX_THREADS\<close> slots of \<open>processes_backup\<close>. The
  assertion sits after the resets, as in the source.
\<close>

fun restart_queue :: "nat \<Rightarrow> Process list \<Rightarrow> Scheduler \<Rightarrow> Scheduler" where
  "restart_queue idx [] s = s"
| "restart_queue idx (process # queue) s =
     (let (a, s1) = make_shared process s
      in restart_queue idx queue (s1\<lparr>processes := (processes s1)(idx := processes s1 idx @ [a])\<rparr>))"

fun restart_slots :: "nat list \<Rightarrow> Scheduler \<Rightarrow> Scheduler" where
  "restart_slots [] s = s"
| "restart_slots (idx # idxs) s =
     restart_slots idxs (restart_queue idx (processes_backup s idx) s)"

definition restart :: "Scheduler \<Rightarrow> fault + Scheduler" where
  "restart s =
     (let s1 = s\<lparr>timer := 0, next_thread := 0, throughput := 0,
                 previous_finished_count := 0, finished := []\<rparr>
      in if \<not> valid_backup s1 then Inl AssertionFailed
         else Inr (restart_slots [0..<MAX_THREADS] s1))"

definition complete :: "Scheduler \<Rightarrow> bool" where
  "complete s =
     (let any_running = list_ex (\<lambda>i. running s i \<noteq> None) [0..<MAX_THREADS];
          any_processes = list_ex (\<lambda>i. processes s i \<noteq> []) [0..<MAX_THREADS];
          any_ready = list_ex (\<lambda>i. ready s i \<noteq> []) [0..<MAX_THREADS];
          any_waiting = list_ex (\<lambda>i. waiting s i \<noteq> []) [0..<MAX_THREADS]
      in \<not> any_running \<and> \<not> any_processes \<and> \<not> any_ready \<and> \<not> any_waiting)"

text \<open>
  \<^verbatim>\<open>emplace_process\<close> returns the new handle. Indexing \<open>processes\<close> at a
  \<open>next_thread\<close> outside the array and the remainder by a zero \<open>threads_count\<close> are
  undefined behaviour in the source, faults here.
\<close>

definition emplace_process ::
  "string \<Rightarrow> nat \<Rightarrow> nat \<Rightarrow> Event list \<Rightarrow> Scheduler \<Rightarrow> fault + (nat \<times> Scheduler)" where
  "emplace_process n p a es s =
     (if MAX_THREADS \<le> next_thread s then Inl OutOfBounds
      else
        let (ret, s1) = make_shared (make_process n p a es) s;
            s2 = s1\<lparr>processes := (processes s1)(next_thread s1 := processes s1 (next_thread s1) @ [ret])\<rparr>;
            s3 = (if \<not> valid_backup s2
                  then s2\<lparr>processes_backup :=
                            (processes_backup s2)(next_thread s2 :=
                               processes_backup s2 (next_thread s2) @ [heap s2 ! ret])\<rparr>
                  else s2)
        in if threads_count s3 = 0 then Inl DivisionByZero
           else Inr (ret, s3\<lparr>next_thread := (next_thread s3 + 1) mod threads_count s3\<rparr>))"

text \<open>\<open>size_t\<close> subtraction and addition, modulo \<open>2 ^ 64\<close>.\<close>

definition size_sub :: "nat \<Rightarrow> nat \<Rightarrow> nat" where
  "size_sub a b = (a + 2 ^ 64 - b mod 2 ^ 64) mod 2 ^ 64"

definition size_add :: "nat \<Rightarrow> nat \<Rightarrow> nat" where
  "size_add a b = (a + b) mod 2 ^ 64"



fun total_turnaround_time :: "Process list \<Rightarrow> nat \<Rightarrow> nat" where
  "total_turnaround_time [] acc = acc"
| "total_turnaround_time (process # rest) acc =
     (case finish_time process of
        None \<Rightarrow> total_turnaround_time rest acc
      | Some ft \<Rightarrow> total_turnaround_time rest (size_add acc (size_sub ft (arrival process))))"

definition average_turnaround_time :: "Scheduler \<Rightarrow> nat" where
  "average_turnaround_time s =
     (if finished s = [] then 0
      else total_turnaround_time (map (\<lambda>a. heap s ! a) (finished s)) 0 div length (finished s))"

definition ensure_pid_is_unique :: "Scheduler \<Rightarrow> nat \<Rightarrow> nat \<Rightarrow> bool" where
  "ensure_pid_is_unique s thread_idx p =
     ((case running s thread_idx of None \<Rightarrow> True | Some r \<Rightarrow> pid (heap s ! r) \<noteq> p)
      \<and> find (\<lambda>elem. pid (heap s ! elem) = p) (ready s thread_idx) = None
      \<and> find (\<lambda>elem. pid (heap s ! elem) = p) (waiting s thread_idx) = None)"

text \<open>
  \<^verbatim>\<open>dispatch_process_by_first_event\<close>. The conditional of the \<open>Cpu\<close> case is the
  source's: the current timer when no start time is recorded, \<^verbatim>\<open>nullopt\<close> otherwise.
\<close>

definition dispatch_process_by_first_event :: "nat \<Rightarrow> nat \<Rightarrow> Scheduler \<Rightarrow> fault + Scheduler" where
  "dispatch_process_by_first_event thread_idx process s =
     (let p = heap s ! process in
      if events p = [] then Inl AssertionFailed
      else
        let first_event = hd (events p) in
        case kind first_event of
          Cpu \<Rightarrow>
            Inr (s\<lparr>heap := (heap s)[process :=
                       p\<lparr>start_time := (if start_time p = None then Some (timer s) else None)\<rparr>],
                   ready := (ready s)(thread_idx := ready s thread_idx @ [process])\<rparr>)
        | Io \<Rightarrow>
            Inr (s\<lparr>waiting := (waiting s)(thread_idx := waiting s thread_idx @ [process])\<rparr>))"

definition erase_at :: "nat \<Rightarrow> 'a list \<Rightarrow> 'a list" where
  "erase_at i xs = take i xs @ drop (Suc i) xs"

text \<open>
  The loop of \<^verbatim>\<open>sidetrack_processes\<close>, with the iterator as an index into
  \<open>processes[thread_idx]\<close>. The two \<^verbatim>\<open>continue\<close> statements after a diagnostic leave
  the iterator where it is and erase nothing: the next round looks at the same element.
  The loop need not end, so it is a partial function: \<open>None\<close> is "never returns".
\<close>

partial_function (option) sidetrack_loop :: "nat \<Rightarrow> nat \<Rightarrow> Scheduler \<Rightarrow> (fault + Scheduler) option" where
  "sidetrack_loop thread_idx it s =
     (if length (processes s thread_idx) \<le> it then Some (Inr s)
      else
        let process = processes s thread_idx ! it;
            p = heap s ! process
        in if arrival p \<noteq> timer s then sidetrack_loop thread_idx (Suc it) s
           else if \<not> ensure_pid_is_unique s thread_idx (pid p)
           then sidetrack_loop thread_idx it
                  (s\<lparr>stderr_log := stderr_log s @ [ErrPidInUse (name p) (pid p)]\<rparr>)
           else if events p = []
           then sidetrack_loop thread_idx it
                  (s\<lparr>stderr_log := stderr_log s @ [ErrNoEvents (name p) (pid p)]\<rparr>)
           else
             (case dispatch_process_by_first_event thread_idx process s of
                Inl e \<Rightarrow> Some (Inl e)
              | Inr s1 \<Rightarrow>
                  sidetrack_loop thread_idx it
                    (s1\<lparr>processes := (processes s1)(thread_idx := erase_at it (processes s1 thread_idx))\<rparr>)))"

definition sidetrack_processes :: "nat \<Rightarrow> Scheduler \<Rightarrow> (fault + Scheduler) option" where
  "sidetrack_processes thread_idx s = sidetrack_loop thread_idx 0 s"

text \<open>
  \<^verbatim>\<open>update_waiting_list\<close>: the scan over \<open>waiting[thread_idx]\<close> (iterator as index,
  collecting \<open>to_dispatch\<close>), then the dispatch of the collected processes.
\<close>

function update_waiting_loop ::
  "nat \<Rightarrow> nat \<Rightarrow> nat list \<Rightarrow> Scheduler \<Rightarrow> fault + (nat list \<times> Scheduler)" where
  "update_waiting_loop thread_idx it to_dispatch s =
     (if length (waiting s thread_idx) \<le> it then Inr (to_dispatch, s)
      else
        let process = waiting s thread_idx ! it;
            p = heap s ! process
        in if events p = [] then Inl AssertionFailed
           else
             let current_event = hd (events p)
             in if kind current_event \<noteq> Io then Inl AssertionFailed
                else if \<not> 0 < duration current_event then Inl AssertionFailed
                else if duration current_event - 1 = 0
                then
                  (if tl (events p) \<noteq> []
                   then update_waiting_loop thread_idx it (to_dispatch @ [process])
                          (s\<lparr>heap := (heap s)[process := p\<lparr>events := tl (events p)\<rparr>],
                             waiting := (waiting s)(thread_idx := erase_at it (waiting s thread_idx))\<rparr>)
                   else update_waiting_loop thread_idx it to_dispatch
                          (s\<lparr>heap := (heap s)[process :=
                                  p\<lparr>events := tl (events p),
                                    finish_time :=
                                      (if finish_time p = None then Some (timer s) else None)\<rparr>],
                             finished := finished s @ [process],
                             waiting := (waiting s)(thread_idx := erase_at it (waiting s thread_idx))\<rparr>))
                else update_waiting_loop thread_idx (Suc it) to_dispatch
                       (s\<lparr>heap := (heap s)[process :=
                               p\<lparr>events :=
                                    current_event\<lparr>duration := duration current_event - 1\<rparr>
                                      # tl (events p)\<rparr>]\<rparr>))"
  by pat_completeness auto
termination
  by (relation "measure (\<lambda>(thread_idx, it, to_dispatch, s). length (waiting s thread_idx) - it)")
     (auto simp: erase_at_def)

declare update_waiting_loop.simps [simp del]

fun dispatch_all :: "nat \<Rightarrow> nat list \<Rightarrow> Scheduler \<Rightarrow> fault + Scheduler" where
  "dispatch_all thread_idx [] s = Inr s"
| "dispatch_all thread_idx (process # rest) s =
     (case dispatch_process_by_first_event thread_idx process s of
        Inl e \<Rightarrow> Inl e
      | Inr s1 \<Rightarrow> dispatch_all thread_idx rest s1)"

definition update_waiting_list :: "nat \<Rightarrow> Scheduler \<Rightarrow> fault + Scheduler" where
  "update_waiting_list thread_idx s =
     (case update_waiting_loop thread_idx 0 [] s of
        Inl e \<Rightarrow> Inl e
      | Inr (to_dispatch, s1) \<Rightarrow> dispatch_all thread_idx to_dispatch s1)"

text \<open>
  \<^verbatim>\<open>update_running\<close>. A process whose last event ends here is pushed to \<open>finished\<close>
  as it is: this path writes no \<open>finish_time\<close>.
\<close>

definition update_running :: "nat \<Rightarrow> Scheduler \<Rightarrow> fault + Scheduler" where
  "update_running thread_idx s =
     (case running s thread_idx of
        None \<Rightarrow> Inr s
      | Some process \<Rightarrow>
          let p = heap s ! process in
          if events p = [] then Inl AssertionFailed
          else
            let current_event = hd (events p)
            in if kind current_event \<noteq> Cpu then Inl AssertionFailed
               else if \<not> 0 < duration current_event then Inl AssertionFailed
               else if duration current_event - 1 = 0
               then
                 (let s1 = s\<lparr>heap := (heap s)[process := p\<lparr>events := tl (events p)\<rparr>]\<rparr>
                  in if tl (events p) \<noteq> []
                     then
                       (case dispatch_process_by_first_event thread_idx process s1 of
                          Inl e \<Rightarrow> Inl e
                        | Inr s2 \<Rightarrow> Inr (s2\<lparr>running := (running s2)(thread_idx := None)\<rparr>))
                     else Inr (s1\<lparr>finished := finished s1 @ [process],
                                  running := (running s1)(thread_idx := None)\<rparr>))
               else Inr (s\<lparr>heap := (heap s)[process :=
                               p\<lparr>events :=
                                    current_event\<lparr>duration := duration current_event - 1\<rparr>
                                      # tl (events p)\<rparr>]\<rparr>))"

section \<open>Policies\<close>

text \<open>
  Both policy bodies loop over \<open>thread_idx = 0 ..< threads_count\<close> and leave the whole
  call (\<^verbatim>\<open>return\<close>) at the first slot whose ready queue is empty. The loops are
  recursions over the list of indices still to visit; no body writes \<open>threads_count\<close>.
\<close>

fun fcfs_loop :: "nat list \<Rightarrow> Scheduler \<Rightarrow> fault + Scheduler" where
  "fcfs_loop [] s = Inr s"
| "fcfs_loop (thread_idx # rest) s =
     (if MAX_THREADS \<le> thread_idx then Inl OutOfBounds
      else if ready s thread_idx = [] then Inr s
      else
        let process = hd (ready s thread_idx)
        in fcfs_loop rest
             (s\<lparr>ready := (ready s)(thread_idx := tl (ready s thread_idx)),
                running := (running s)(thread_idx := Some process)\<rparr>))"

definition FirstComeFirstServedPolicy_apply :: "Scheduler \<Rightarrow> fault + Scheduler" where
  "FirstComeFirstServedPolicy_apply sim = fcfs_loop [0..<threads_count sim] sim"

fun rr_loop :: "nat \<Rightarrow> nat list \<Rightarrow> Scheduler \<Rightarrow> fault + Scheduler" where
  "rr_loop quantum [] s = Inr s"
| "rr_loop quantum (thread_idx # rest) s =
     (if MAX_THREADS \<le> thread_idx then Inl OutOfBounds
      else if ready s thread_idx = [] then Inr s
      else
        let process = hd (ready s thread_idx);
            s1 = s\<lparr>ready := (ready s)(thread_idx := tl (ready s thread_idx)),
                   running := (running s)(thread_idx := Some process)\<rparr>;
            p = heap s1 ! process
        in if events p = [] then Inl AssertionFailed
           else
             let next_event = hd (events p)
             in if kind next_event \<noteq> Cpu then Inl AssertionFailed
                else if quantum < duration next_event
                then
                  rr_loop quantum rest
                    (s1\<lparr>heap := (heap s1)[process :=
                            p\<lparr>events :=
                                 \<lparr>kind = Cpu, duration = quantum,
                                  resource_usage = resource_usage next_event\<rparr>
                                 # next_event\<lparr>duration := duration next_event - quantum\<rparr>
                                 # tl (events p)\<rparr>]\<rparr>)
                else rr_loop quantum rest s1)"

definition RoundRobinPolicy_apply :: "nat \<Rightarrow> Scheduler \<Rightarrow> fault + Scheduler" where
  "RoundRobinPolicy_apply quantum sim = rr_loop quantum [0..<threads_count sim] sim"

text \<open>\<^verbatim>\<open>NamedSchedulePolicy::operator()\<close>: run the stored callback.\<close>

definition apply_schedule_policy :: "Scheduler \<Rightarrow> fault + Scheduler" where
  "apply_schedule_policy s =
     (case policy_callback (schedule_policy s) of
        FirstComeFirstServedPolicy \<Rightarrow> FirstComeFirstServedPolicy_apply s
      | RoundRobinPolicy quantum \<Rightarrow> RoundRobinPolicy_apply quantum s)"

section \<open>The tick\<close>

text \<open>
  The part of one loop round of \<^verbatim>\<open>step\<close> after the policy call: the safety net, the
  usage of the running process, the zeroing on completion, throughput and
  \<open>previous_finished_count\<close>.
\<close>

definition step_observe :: "nat \<Rightarrow> Scheduler \<Rightarrow> Scheduler" where
  "step_observe thread_idx s =
     (let s1 = (if running s thread_idx = None \<and> 0 < length (ready s thread_idx)
                then s\<lparr>running := (running s)(thread_idx := Some (hd (ready s thread_idx))),
                       ready := (ready s)(thread_idx := tl (ready s thread_idx))\<rparr>
                else s);
          s2 = (case running s1 thread_idx of
                  None \<Rightarrow> s1
                | Some r \<Rightarrow>
                    if events (heap s1 ! r) \<noteq> []
                    then s1\<lparr>cpu_usage := (cpu_usage s1)(thread_idx :=
                                resource_usage (hd (events (heap s1 ! r))))\<rparr>
                    else s1);
          s3 = (if complete s2 then s2\<lparr>cpu_usage := (\<lambda>_. 0)\<rparr> else s2)
      in s3\<lparr>throughput :=
               (if timer s3 \<noteq> 0 then real (length (finished s3)) / real (timer s3) else 0),
             previous_finished_count := length (finished s3)\<rparr>)"

text \<open>
  One round of the loop of \<^verbatim>\<open>step\<close>, for the slot \<open>thread_idx\<close>; then the loop, over
  the indices \<open>0 ..< threads_count\<close> (no round writes \<open>threads_count\<close>), and \<open>step\<close>.
\<close>

definition step_thread :: "nat \<Rightarrow> Scheduler \<Rightarrow> (fault + Scheduler) option" where
  "step_thread thread_idx s =
     (if MAX_THREADS \<le> thread_idx then Some (Inl OutOfBounds)
      else
        case sidetrack_processes thread_idx s of
          None \<Rightarrow> None
        | Some (Inl e) \<Rightarrow> Some (Inl e)
        | Some (Inr s1) \<Rightarrow>
            Some
              (case update_waiting_list thread_idx s1 of
                 Inl e \<Rightarrow> Inl e
               | Inr s2 \<Rightarrow>
                   (case update_running thread_idx s2 of
                      Inl e \<Rightarrow> Inl e
                    | Inr s3 \<Rightarrow>
                        (case (if running s3 thread_idx = None then apply_schedule_policy s3
                               else Inr s3) of
                           Inl e \<Rightarrow> Inl e
                         | Inr s4 \<Rightarrow> Inr (step_observe thread_idx s4)))))"

fun step_threads :: "nat list \<Rightarrow> Scheduler \<Rightarrow> (fault + Scheduler) option" where
  "step_threads [] s = Some (Inr s)"
| "step_threads (thread_idx # rest) s =
     (case step_thread thread_idx s of
        None \<Rightarrow> None
      | Some (Inl e) \<Rightarrow> Some (Inl e)
      | Some (Inr s1) \<Rightarrow> step_threads rest s1)"

definition step :: "Scheduler \<Rightarrow> (fault + Scheduler) option" where
  "step s =
     (let s0 = s\<lparr>valid_backup := True\<rparr>
      in case step_threads [0..<threads_count s0] s0 of
           None \<Rightarrow> None
         | Some (Inl e) \<Rightarrow> Some (Inl e)
         | Some (Inr s1) \<Rightarrow> Some (Inr (s1\<lparr>timer := timer s1 + 1\<rparr>)))"

text \<open>\<open>n\<close> calls of \<^verbatim>\<open>step\<close> in a row.\<close>

fun steps :: "nat \<Rightarrow> Scheduler \<Rightarrow> (fault + Scheduler) option" where
  "steps 0 s = Some (Inr s)"
| "steps (Suc n) s =
     (case step s of
        None \<Rightarrow> None
      | Some (Inl e) \<Rightarrow> Some (Inl e)
      | Some (Inr s1) \<Rightarrow> steps n s1)"

section \<open>The interpreter\<close>

text \<open>
  Modelled from the spec: \<^verbatim>\<open>Parser.hpp\<close> (the AST) is not part of the sources at
  hand. An expression has the nine variants of the spec; an \<open>ExpressionId\<close> is replaced
  by the expression it names, so \<^verbatim>\<open>materialize_expressions\<close> is the identity. A token
  is its lexeme. A statement holds a top-level expression or is of another kind.
\<close>

datatype Expression =
    Call string "Expression list"
  | StringLiteral string
  | Number string
  | List "Expression list"
  | Tuple "Expression list"
  | Variable string
  | Constant string Expression
  | Range string string
  | For string Expression "Expression list"

datatype Statement = ExpressionStatement Expression | OtherStatement

text \<open>
  \<^verbatim>\<open>Value\<close> of \<^verbatim>\<open>Interpreter.hpp\<close>: a variant of \<^verbatim>\<open>monostate\<close>, string,
  \<open>size_t\<close> and a list of values. An accessor \<^verbatim>\<open>as_X_or(callback)\<close> is a case
  distinction on the variant; \<^verbatim>\<open>TRY(e)\<close> (of the absent \<^verbatim>\<open>Util.hpp\<close>) leaves the
  enclosing function with \<^verbatim>\<open>nullopt\<close> when \<open>e\<close> is \<^verbatim>\<open>nullopt\<close>.
\<close>

datatype Value = VNone | VString string | VNumber nat | VList "Value list"

text \<open>
  The random draws of the absent \<^verbatim>\<open>Util.hpp\<close> are parameters: the \<open>k\<close>-th draw of
  \<^verbatim>\<open>random_natural(lo, hi)\<close> and of \<^verbatim>\<open>random_float()\<close>.
\<close>

record RandomSource =
  random_natural :: "nat \<Rightarrow> nat \<Rightarrow> nat \<Rightarrow> nat"
  random_float :: "nat \<Rightarrow> real"

text \<open>
  The interpreter owns the simulation handle; \<open>draws\<close> counts the random draws made so
  far, \<open>spawned_pids\<close> is the function-local static vector of
  \<^verbatim>\<open>spawn_random_process_builtin\<close>, \<open>stdout_log\<close> the policy names that
  \<^verbatim>\<open>try_policy_from_str\<close> reported as unknown on standard output.
\<close>

record Interp =
  sim :: Scheduler
  draws :: nat
  spawned_pids :: "nat list"
  stdout_log :: "string list"

text \<open>
  Modelled from the spec: \<^verbatim>\<open>Util::parse_number\<close> (\<^verbatim>\<open>Util.hpp\<close> is not part of the
  sources at hand) fails unless the lexeme is a non-negative decimal integer; here also
  when the number does not fit \<open>size_t\<close>.
\<close>

definition parse_number :: "string \<Rightarrow> nat option" where
  "parse_number lexeme =
     (if lexeme = [] \<or> \<not> list_all (\<lambda>c. c \<in> set ''0123456789'') lexeme then None
      else
        let n = fold (\<lambda>c acc. 10 * acc + (of_char c - (48::nat))) lexeme 0
        in if n \<le> SIZE_MAX then Some n else None)"

text \<open>
  Modelled from the spec: \<^verbatim>\<open>Os::event_kind_try_from_str\<close> (\<^verbatim>\<open>os/Os.hpp\<close> is not
  part of the sources at hand) knows the strings \<open>Cpu\<close> and \<open>Io\<close>, exactly.
\<close>

definition event_kind_try_from_str :: "string \<Rightarrow> EventKind option" where
  "event_kind_try_from_str str =
     (if str = ''Cpu'' then Some Cpu else if str = ''Io'' then Some Io else None)"

text \<open>\<^verbatim>\<open>report_error\<close> and \<^verbatim>\<open>report_note\<close> print one line to the standard error stream.\<close>

definition report :: "Diagnostic \<Rightarrow> Interp \<Rightarrow> Interp" where
  "report d s = s\<lparr>sim := (sim s)\<lparr>stderr_log := stderr_log (sim s) @ [d]\<rparr>\<rparr>"

definition is_builtin :: "string \<Rightarrow> bool" where
  "is_builtin lexeme \<longleftrightarrow> lexeme \<in> set [''spawn_process'', ''spawn_random_process'']"

text \<open>
  \<^verbatim>\<open>list_as_events_deque\<close>. Each element is asked to be a value list; then
  \<open>tuple[0]\<close> and \<open>tuple[1]\<close> are read with the unchecked \<^verbatim>\<open>operator[]\<close> of
  \<^verbatim>\<open>std::vector\<close>: an index at or beyond the length is undefined behaviour, a fault
  here.
\<close>

fun list_as_events_loop ::
  "RandomSource \<Rightarrow> Value list \<Rightarrow> Event list \<Rightarrow> Interp \<Rightarrow> fault + (Event list option \<times> Interp)" where
  "list_as_events_loop rs [] evs s = Inr (Some evs, s)"
| "list_as_events_loop rs (tuple_value # rest) evs s =
     (case tuple_value of
        VList tuple \<Rightarrow>
          if length tuple \<le> 0 then Inl OutOfBounds
          else
            (case tuple ! 0 of
               VString event_kind_str \<Rightarrow>
                 if length tuple \<le> 1 then Inl OutOfBounds
                 else
                   (case tuple ! 1 of
                      VNumber dur \<Rightarrow>
                        (case event_kind_try_from_str event_kind_str of
                           None \<Rightarrow> Inr (None, report NoteEventsExample s)
                         | Some maybe_event_kind \<Rightarrow>
                             list_as_events_loop rs rest
                               (evs @ [\<lparr>kind = maybe_event_kind, duration = dur,
                                        resource_usage = max (1 / 100) (random_float rs (draws s))\<rparr>])
                               (s\<lparr>draws := draws s + 1\<rparr>))
                    | _ \<Rightarrow> Inr (None, report NoteEventsExample s))
             | _ \<Rightarrow> Inr (None, report NoteEventsExample s))
      | _ \<Rightarrow> Inr (None, report NoteEventsExample s))"

definition list_as_events_deque ::
  "RandomSource \<Rightarrow> Value list \<Rightarrow> Interp \<Rightarrow> fault + (Event list option \<times> Interp)" where
  "list_as_events_deque rs list s = list_as_events_loop rs list [] s"

text \<open>
  \<^verbatim>\<open>constant_visitor\<close>, on the constant's name and the expression of its value. The
  parsed number is stored as it is.
\<close>

definition constant_visitor :: "string \<Rightarrow> Expression \<Rightarrow> Interp \<Rightarrow> Value option \<times> Interp" where
  "constant_visitor cname expr s =
     (case expr of
        Variable lexeme \<Rightarrow>
          if cname = ''schedule_policy''
          then (case try_policy_from_str lexeme of
                  None \<Rightarrow> (None, s\<lparr>stdout_log := stdout_log s @ [lexeme]\<rparr>)
                | Some policy \<Rightarrow>
                    (Some VNone,
                     s\<lparr>sim := switch_schedule_policy (named_scheduler_from_policy policy) (sim s)\<rparr>))
          else (Some VNone, s)
      | Number lexeme \<Rightarrow>
          if cname = ''max_processes''
          then (case parse_number lexeme of
                  None \<Rightarrow> (None, s)
                | Some n \<Rightarrow> (Some VNone, s\<lparr>sim := (sim s)\<lparr>max_processes := n\<rparr>\<rparr>))
          else if cname = ''max_events_per_process''
          then (case parse_number lexeme of
                  None \<Rightarrow> (None, s)
                | Some n \<Rightarrow> (Some VNone, s\<lparr>sim := (sim s)\<lparr>max_events_per_process := n\<rparr>\<rparr>))
          else if cname = ''max_single_event_duration''
          then (case parse_number lexeme of
                  None \<Rightarrow> (None, s)
                | Some n \<Rightarrow> (Some VNone, s\<lparr>sim := (sim s)\<lparr>max_single_event_duration := n\<rparr>\<rparr>))
          else if cname = ''max_arrival_time''
          then (case parse_number lexeme of
                  None \<Rightarrow> (None, s)
                | Some n \<Rightarrow> (Some VNone, s\<lparr>sim := (sim s)\<lparr>max_arrival_time := n\<rparr>\<rparr>))
          else if cname = ''threads_count''
          then (case parse_number lexeme of
                  None \<Rightarrow> (None, s)
                | Some n \<Rightarrow> (Some VNone, s\<lparr>sim := (sim s)\<lparr>threads_count := n\<rparr>\<rparr>))
          else (Some VNone, report NoteAvailableConstants (report (ErrInvalidConstant cname) s))
      | _ \<Rightarrow> (Some VNone, s))"

text \<open>
  \<^verbatim>\<open>spawn_random_process_builtin\<close>. The rejection loop draws until the pid is not in
  \<open>spawned_pids\<close>; it need not end, so it is a partial function. The arity check
  reports (under the name \<open>spawn_process\<close>, as the source does) and goes on.
\<close>

partial_function (option) draw_fresh_pid :: "RandomSource \<Rightarrow> nat \<Rightarrow> Interp \<Rightarrow> (nat \<times> Interp) option" where
  "draw_fresh_pid rs p s =
     (if p \<in> set (spawned_pids s)
      then draw_fresh_pid rs (random_natural rs (draws s) 0 (max_processes (sim s)))
             (s\<lparr>draws := draws s + 1\<rparr>)
      else Some (p, s))"

definition process_random_event :: "RandomSource \<Rightarrow> Interp \<Rightarrow> Event \<times> Interp" where
  "process_random_event rs s =
     (let k = (if random_natural rs (draws s) 0 1 = 0 then Cpu else Io);
          dur = random_natural rs (draws s + 1) 1 (max_single_event_duration (sim s))
      in (\<lparr>kind = k, duration = dur,
           resource_usage = max (1 / 100) (random_float rs (draws s + 2))\<rparr>,
          s\<lparr>draws := draws s + 3\<rparr>))"

fun random_events :: "RandomSource \<Rightarrow> nat \<Rightarrow> Event list \<Rightarrow> Interp \<Rightarrow> Event list \<times> Interp" where
  "random_events rs 0 evs s = (evs, s)"
| "random_events rs (Suc n) evs s =
     (let (e, s1) = process_random_event rs s in random_events rs n (evs @ [e]) s1)"

definition spawn_random_process_builtin ::
  "RandomSource \<Rightarrow> Expression list \<Rightarrow> Interp \<Rightarrow> (fault + (Value option \<times> Interp)) option" where
  "spawn_random_process_builtin rs arguments s =
     (let s0 = (if length arguments \<noteq> 0
                then report (ErrMismatchedArgc ''spawn_process'' (length arguments)) s else s)
      in case draw_fresh_pid rs (random_natural rs (draws s0) 0 (max_processes (sim s0)))
                (s0\<lparr>draws := draws s0 + 1\<rparr>) of
           None \<Rightarrow> None
         | Some (p, s1) \<Rightarrow>
             let s2 = s1\<lparr>spawned_pids := spawned_pids s1 @ [p]\<rparr>;
                 arr = random_natural rs (draws s2) 0 (max_arrival_time (sim s2));
                 events_count = random_natural rs (draws s2 + 1) 1 (max_events_per_process (sim s2));
                 (evs, s3) = random_events rs events_count [] (s2\<lparr>draws := draws s2 + 2\<rparr>)
             in (case emplace_process ''Process'' p arr evs (sim s3) of
                   Inl e \<Rightarrow> Some (Inl e)
                 | Inr (ret, sim1) \<Rightarrow> Some (Inr (Some VNone, s3\<lparr>sim := sim1\<rparr>))))"

text \<open>
  \<^verbatim>\<open>evaluate_expression\<close> with its visitors. \<open>evaluate_elements\<close> is the loop of the
  list and tuple visitors, \<open>evaluate_body\<close> and \<open>for_loop\<close> the two loops of
  \<^verbatim>\<open>evalute_for_expression\<close>, whose body results are discarded.
  \<^verbatim>\<open>spawn_process_builtin\<close> reports a wrong argument count and goes on: the result of
  \<^verbatim>\<open>report_function_call_mismatched_argc\<close> is dropped. It then reads
  \<open>arguments[0]\<close> to \<open>arguments[3]\<close> with the unchecked \<^verbatim>\<open>operator[]\<close>.
\<close>

function (sequential)
  evaluate_expression ::
    "RandomSource \<Rightarrow> Expression \<Rightarrow> Interp \<Rightarrow> (fault + (Value option \<times> Interp)) option"
and evaluate_elements ::
    "RandomSource \<Rightarrow> Expression list \<Rightarrow> Value list \<Rightarrow> Interp \<Rightarrow> (fault + (Value option \<times> Interp)) option"
and evaluate_body ::
    "RandomSource \<Rightarrow> Expression list \<Rightarrow> Interp \<Rightarrow> (fault + Interp) option"
and for_loop ::
    "RandomSource \<Rightarrow> nat \<Rightarrow> nat \<Rightarrow> Expression list \<Rightarrow> Interp \<Rightarrow> (fault + Interp) option"
and spawn_process_builtin ::
    "RandomSource \<Rightarrow> Expression list \<Rightarrow> Interp \<Rightarrow> (fault + (Value option \<times> Interp)) option"
where
  "evaluate_expression rs (Call callee arguments) s =
     (if is_builtin callee
      then (if callee = ''spawn_process'' then spawn_process_builtin rs arguments s
            else if callee = ''spawn_random_process'' then spawn_random_process_builtin rs arguments s
            else Some (Inr (Some VNone, s)))
      else Some (Inl AssertionFailed))"
| "evaluate_expression rs (StringLiteral lexeme) s = Some (Inr (Some (VString lexeme), s))"
| "evaluate_expression rs (Number lexeme) s =
     (case parse_number lexeme of
        None \<Rightarrow> Some (Inr (None, s))
      | Some parsed_number \<Rightarrow> Some (Inr (Some (VNumber parsed_number), s)))"
| "evaluate_expression rs (List elements) s = evaluate_elements rs elements [] s"
| "evaluate_expression rs (Tuple elements) s = evaluate_elements rs elements [] s"
| "evaluate_expression rs (Variable lexeme) s = Some (Inr (Some (VString lexeme), s))"
| "evaluate_expression rs (Constant cname val) s = Some (Inr (constant_visitor cname val s))"
| "evaluate_expression rs (Range start_lexeme end_lexeme) s =
     (case parse_number start_lexeme of
        None \<Rightarrow> Some (Inr (None, s))
      | Some a \<Rightarrow>
          (case parse_number end_lexeme of
             None \<Rightarrow> Some (Inr (None, s))
           | Some b \<Rightarrow> Some (Inr (Some (VList [VNumber a, VNumber b]), s))))"
| "evaluate_expression rs (For binder range_expr body) s =
     (case range_expr of
        Range start_lexeme end_lexeme \<Rightarrow>
          (case parse_number start_lexeme of
             None \<Rightarrow> Some (Inr (None, s))
           | Some a \<Rightarrow>
               (case parse_number end_lexeme of
                  None \<Rightarrow> Some (Inr (None, s))
                | Some b \<Rightarrow>
                    (case for_loop rs a b body s of
                       None \<Rightarrow> None
                     | Some (Inl e) \<Rightarrow> Some (Inl e)
                     | Some (Inr s1) \<Rightarrow> Some (Inr (Some VNone, s1)))))
      | _ \<Rightarrow> Some (Inr (None, s)))"
| "evaluate_elements rs [] result s = Some (Inr (Some (VList result), s))"
| "evaluate_elements rs (elem # rest) result s =
     (case evaluate_expression rs elem s of
        None \<Rightarrow> None
      | Some (Inl e) \<Rightarrow> Some (Inl e)
      | Some (Inr (None, s1)) \<Rightarrow> Some (Inr (None, s1))
      | Some (Inr (Some v, s1)) \<Rightarrow> evaluate_elements rs rest (result @ [v]) s1)"
| "evaluate_body rs [] s = Some (Inr s)"
| "evaluate_body rs (expr # rest) s =
     (case evaluate_expression rs expr s of
        None \<Rightarrow> None
      | Some (Inl e) \<Rightarrow> Some (Inl e)
      | Some (Inr (_, s1)) \<Rightarrow> evaluate_body rs rest s1)"
| "for_loop rs i end_number body s =
     (if i < end_number
      then (case evaluate_body rs body s of
              None \<Rightarrow> None
            | Some (Inl e) \<Rightarrow> Some (Inl e)
            | Some (Inr s1) \<Rightarrow> for_loop rs (Suc i) end_number body s1)
      else Some (Inr s))"
| "spawn_process_builtin rs arguments s =
     (let s0 = (if length arguments \<noteq> 4
                then report (ErrMismatchedArgc ''spawn_process'' (length arguments)) s else s)
      in if length arguments \<le> 0 then Some (Inl OutOfBounds)
         else
           (case evaluate_expression rs (arguments ! 0) s0 of
              None \<Rightarrow> None
            | Some (Inl e) \<Rightarrow> Some (Inl e)
            | Some (Inr (None, s1)) \<Rightarrow> Some (Inr (None, s1))
            | Some (Inr (Some process_name_value, s1)) \<Rightarrow>
                (case process_name_value of
                   VString process_name \<Rightarrow>
                     if length arguments \<le> 1 then Some (Inl OutOfBounds)
                     else
                       (case evaluate_expression rs (arguments ! 1) s1 of
                          None \<Rightarrow> None
                        | Some (Inl e) \<Rightarrow> Some (Inl e)
                        | Some (Inr (None, s2)) \<Rightarrow> Some (Inr (None, s2))
                        | Some (Inr (Some pid_value, s2)) \<Rightarrow>
                            (case pid_value of
                               VNumber pid_number \<Rightarrow>
                                 if length arguments \<le> 2 then Some (Inl OutOfBounds)
                                 else
                                   (case evaluate_expression rs (arguments ! 2) s2 of
                                      None \<Rightarrow> None
                                    | Some (Inl e) \<Rightarrow> Some (Inl e)
                                    | Some (Inr (None, s3)) \<Rightarrow> Some (Inr (None, s3))
                                    | Some (Inr (Some arrival_value, s3)) \<Rightarrow>
                                        (case arrival_value of
                                           VNumber arrival_number \<Rightarrow>
                                             if length arguments \<le> 3 then Some (Inl OutOfBounds)
                                             else
                                               (case evaluate_expression rs (arguments ! 3) s3 of
                                                  None \<Rightarrow> None
                                                | Some (Inl e) \<Rightarrow> Some (Inl e)
                                                | Some (Inr (None, s4)) \<Rightarrow> Some (Inr (None, s4))
                                                | Some (Inr (Some list_value, s4)) \<Rightarrow>
                                                    (case list_value of
                                                       VList list \<Rightarrow>
                                                         (case list_as_events_deque rs list s4 of
                                                            Inl e \<Rightarrow> Some (Inl e)
                                                          | Inr (None, s5) \<Rightarrow> Some (Inr (None, s5))
                                                          | Inr (Some evs, s5) \<Rightarrow>
                                                              (case emplace_process process_name pid_number
                                                                      arrival_number evs (sim s5) of
                                                                 Inl e \<Rightarrow> Some (Inl e)
                                                               | Inr (ret, sim1) \<Rightarrow>
                                                                   Some (Inr (Some VNone, s5\<lparr>sim := sim1\<rparr>))))
                                                     | _ \<Rightarrow>
                                                         Some (Inr (None,
                                                           report NoteEventsExample
                                                             (report (ErrMismatchedType 4 ''spawn_process''
                                                                        ''List<Tuple: Event>'') s4)))))
                                         | _ \<Rightarrow>
                                             Some (Inr (None,
                                               report (ErrMismatchedType 2 ''spawn_process'' ''int'') s3))))
                             | _ \<Rightarrow>
                                 Some (Inr (None,
                                   report (ErrMismatchedType 1 ''spawn_process'' ''int'') s2))))
                 | _ \<Rightarrow>
                     Some (Inr (None,
                       report (ErrMismatchedType 0 ''spawn_process'' ''string'') s1)))))"
  by pat_completeness auto
termination
proof -
  have nth_size: "size (xs ! i) \<le> size_list size xs" if "i < length xs"
    for i and xs :: "Expression list"
    using that
  proof (induction xs arbitrary: i)
    case Nil
    then show ?case by simp
  next
    case (Cons a xs)
    show ?case
    proof (cases i)
      case 0
      then show ?thesis by simp
    next
      case (Suc j)
      with Cons.prems have "j < length xs" by simp
      from Cons.IH[OF this] Suc show ?thesis by simp
    qed
  qed
  have nth_lt: "2 * size (xs ! i) < Suc (2 * size_list size xs)" if "\<not> length xs \<le> i"
    for i and xs :: "Expression list"
    using nth_size[of i xs] that by simp
  have hd_lt: "2 * size (xs ! 0) < Suc (2 * size_list size xs)" if "xs \<noteq> []"
    for xs :: "Expression list"
    using nth_size[of 0 xs] that by simp
  show ?thesis
    apply (relation "inv_image (less_than <*lex*> less_than)
      (\<lambda>x. case x of
         Inl (Inl (rs, e, s)) \<Rightarrow> (2 * size e, 0)
       | Inl (Inr (rs, es, vs, s)) \<Rightarrow> (2 * size_list size es + 1, 0)
       | Inr (Inl (rs, es, s)) \<Rightarrow> (2 * size_list size es + 1, 0)
       | Inr (Inr (Inl (rs, i, n, es, s))) \<Rightarrow> (2 * size_list size es + 1, Suc (n - i))
       | Inr (Inr (Inr (rs, es, s))) \<Rightarrow> (2 * size_list size es + 1, 0))")
    apply (auto simp: nth_lt hd_lt)
    done
qed

text \<open>
  \<^verbatim>\<open>evaluate_statement\<close> and \<^verbatim>\<open>evaluate_ast\<close>. A statement that holds an
  expression yields whether the expression produced a value; only a statement of another
  kind yields \<^verbatim>\<open>nullopt\<close> and ends the loop.
\<close>

definition evaluate_statement ::
  "RandomSource \<Rightarrow> Statement \<Rightarrow> Interp \<Rightarrow> (fault + (bool option \<times> Interp)) option" where
  "evaluate_statement rs statement s =
     (case statement of
        ExpressionStatement expr \<Rightarrow>
          (case evaluate_expression rs expr s of
             None \<Rightarrow> None
           | Some (Inl e) \<Rightarrow> Some (Inl e)
           | Some (Inr (v, s1)) \<Rightarrow> Some (Inr (Some (v \<noteq> None), s1)))
      | OtherStatement \<Rightarrow> Some (Inr (None, s)))"

fun evaluate_ast_loop ::
  "RandomSource \<Rightarrow> Statement list \<Rightarrow> bool \<Rightarrow> Interp \<Rightarrow> (fault + (bool option \<times> Interp)) option" where
  "evaluate_ast_loop rs [] failed s = Some (Inr (Some failed, s))"
| "evaluate_ast_loop rs (statement # rest) failed s =
     (case evaluate_statement rs statement s of
        None \<Rightarrow> None
      | Some (Inl e) \<Rightarrow> Some (Inl e)
      | Some (Inr (None, s1)) \<Rightarrow> Some (Inr (None, s1))
      | Some (Inr (Some b, s1)) \<Rightarrow> evaluate_ast_loop rs rest (failed \<or> b) s1)"

definition evaluate_ast ::
  "RandomSource \<Rightarrow> Statement list \<Rightarrow> Interp \<Rightarrow> (fault + (bool option \<times> Interp)) option" where
  "evaluate_ast rs statements s = evaluate_ast_loop rs statements False s"

section \<open>Runs of the driver surface\<close>

text \<open>
  A run is a sequence of calls a driver can make on a scheduler: the member functions
  and the assignments to the public configuration fields (what the configuration keys of
  the interpreter do). A run stops at the first call that faults or does not return.
\<close>

datatype DriverCall =
    EmplaceProcess string nat nat "Event list"
  | SwitchSchedulePolicy NamedSchedulePolicy
  | SetThreadsCount nat
  | SetMaxProcesses nat
  | SetMaxEventsPerProcess nat
  | SetMaxSingleEventDuration nat
  | SetMaxArrivalTime nat
  | Step
  | Restart

fun drive :: "DriverCall \<Rightarrow> Scheduler \<Rightarrow> (fault + Scheduler) option" where
  "drive (EmplaceProcess n p a es) s =
     (case emplace_process n p a es s of Inl e \<Rightarrow> Some (Inl e) | Inr (ret, s1) \<Rightarrow> Some (Inr s1))"
| "drive (SwitchSchedulePolicy policy) s = Some (Inr (switch_schedule_policy policy s))"
| "drive (SetThreadsCount n) s = Some (Inr (s\<lparr>threads_count := n\<rparr>))"
| "drive (SetMaxProcesses n) s = Some (Inr (s\<lparr>max_processes := n\<rparr>))"
| "drive (SetMaxEventsPerProcess n) s = Some (Inr (s\<lparr>max_events_per_process := n\<rparr>))"
| "drive (SetMaxSingleEventDuration n) s = Some (Inr (s\<lparr>max_single_event_duration := n\<rparr>))"
| "drive (SetMaxArrivalTime n) s = Some (Inr (s\<lparr>max_arrival_time := n\<rparr>))"
| "drive Step s = step s"
| "drive Restart s = Some (restart s)"

fun run :: "DriverCall list \<Rightarrow> Scheduler \<Rightarrow> (fault + Scheduler) option" where
  "run [] s = Some (Inr s)"
| "run (c # cs) s =
     (case drive c s of
        None \<Rightarrow> None
      | Some (Inl e) \<Rightarrow> Some (Inl e)
      | Some (Inr s1) \<Rightarrow> run cs s1)"

section \<open>Notions used by the statements\<close>

text \<open>What a call that returned left behind; nothing for a fault or a call that never returns.\<close>

definition returned :: "(fault + 'a) option \<Rightarrow> 'a option" where
  "returned r = (case r of Some (Inr x) \<Rightarrow> Some x | _ \<Rightarrow> None)"

text \<open>
  The iterator of \<^verbatim>\<open>sidetrack_processes\<close> stands on a process that has arrived and
  that the loop refuses: its pid is in use on the core, or it has no events.
\<close>

definition stuck :: "nat \<Rightarrow> nat \<Rightarrow> Scheduler \<Rightarrow> bool" where
  "stuck thread_idx it s \<longleftrightarrow>
     it < length (processes s thread_idx) \<and>
     arrival (heap s ! (processes s thread_idx ! it)) = timer s \<and>
     (\<not> ensure_pid_is_unique s thread_idx (pid (heap s ! (processes s thread_idx ! it)))
      \<or> events (heap s ! (processes s thread_idx ! it)) = [])"

text \<open>In how many queue slots (pending, ready, waiting, running, over all cores) a handle sits.\<close>

definition slot_count :: "nat \<Rightarrow> Scheduler \<Rightarrow> nat" where
  "slot_count a s =
     sum_list (map (\<lambda>t. count_list (processes s t) a + count_list (ready s t) a
                         + count_list (waiting s t) a
                         + (if running s t = Some a then 1 else 0)) [0..<MAX_THREADS])"

text \<open>The pending processes of all cores, as values, in core order; and as a multiset.\<close>

definition pending_processes :: "Scheduler \<Rightarrow> Process list" where
  "pending_processes s = concat (map (\<lambda>t. map (\<lambda>a. heap s ! a) (processes s t)) [0..<MAX_THREADS])"

definition pending_multiset :: "Scheduler \<Rightarrow> Process multiset" where
  "pending_multiset s = mset (pending_processes s)"

text \<open>
  The fields that no part of a tick writes: configuration, policy, placement cursor and
  backup. \<open>ok_result\<close>: a call either kept them, or stopped on a failed assertion.
\<close>

definition config_frame :: "Scheduler \<Rightarrow> Scheduler \<Rightarrow> bool" where
  "config_frame s s' \<longleftrightarrow>
     threads_count s' = threads_count s \<and> next_thread s' = next_thread s \<and>
     processes_backup s' = processes_backup s \<and> valid_backup s' = valid_backup s \<and>
     schedule_policy s' = schedule_policy s \<and> max_processes s' = max_processes s \<and>
     max_events_per_process s' = max_events_per_process s \<and>
     max_single_event_duration s' = max_single_event_duration s \<and>
     max_arrival_time s' = max_arrival_time s"

definition ok_result :: "Scheduler \<Rightarrow> fault + Scheduler \<Rightarrow> bool" where
  "ok_result s r \<longleftrightarrow> (case r of Inl e \<Rightarrow> e = AssertionFailed | Inr s' \<Rightarrow> config_frame s s')"

text \<open>The same for the scan of \<^verbatim>\<open>update_waiting_list\<close>, which also returns \<open>to_dispatch\<close>.\<close>

definition loop_ok :: "Scheduler \<Rightarrow> fault + (nat list \<times> Scheduler) \<Rightarrow> bool" where
  "loop_ok s r \<longleftrightarrow> (case r of Inl e \<Rightarrow> e = AssertionFailed | Inr (td, s') \<Rightarrow> config_frame s s')"

text \<open>
  \<open>threads_count\<close> and the placement cursor stay inside the arrays; an outcome is safe when
  it is a state in range, a failed assertion, or no return at all.
\<close>

definition in_range :: "Scheduler \<Rightarrow> bool" where
  "in_range s \<longleftrightarrow> 1 \<le> threads_count s \<and> threads_count s \<le> MAX_THREADS \<and> next_thread s < MAX_THREADS"

definition safe_outcome :: "(fault + Scheduler) option \<Rightarrow> bool" where
  "safe_outcome r \<longleftrightarrow>
     (case r of None \<Rightarrow> True | Some (Inl e) \<Rightarrow> e = AssertionFailed | Some (Inr s') \<Rightarrow> in_range s')"

text \<open>In a complete state every \<open>cpu_usage\<close> entry is zero.\<close>

definition idle_inv :: "Scheduler \<Rightarrow> bool" where
  "idle_inv s \<longleftrightarrow> (complete s \<longrightarrow> cpu_usage s = (\<lambda>_. 0))"

text \<open>The backed-up processes of all slots, as a multiset.\<close>

definition backup_multiset :: "Scheduler \<Rightarrow> Process multiset" where
  "backup_multiset s = mset (concat (map (processes_backup s) [0..<MAX_THREADS]))"

text \<open>Concrete inputs for the examples: a fixed random source, a fresh interpreter, events.\<close>

definition no_random :: RandomSource where
  "no_random = \<lparr>random_natural = (\<lambda>k lo hi. lo), random_float = (\<lambda>k. 1 / 2)\<rparr>"

definition new_interp :: "Scheduler \<Rightarrow> Interp" where
  "new_interp sim0 = \<lparr>sim = sim0, draws = 0, spawned_pids = [], stdout_log = []\<rparr>"

definition fcfs :: NamedSchedulePolicy where
  "fcfs = named_scheduler_from_policy FirstComeFirstServed"

definition cpu_event :: "nat \<Rightarrow> Event" where
  "cpu_event d = \<lparr>kind = Cpu, duration = d, resource_usage = 1 / 2\<rparr>"

definition io_event :: "nat \<Rightarrow> Event" where
  "io_event d = \<lparr>kind = Io, duration = d, resource_usage = 1 / 2\<rparr>"

section \<open>Unfolding the loops\<close>

lemma sidetrack_loop_end:
  "length (processes s thread_idx) \<le> it \<Longrightarrow> sidetrack_loop thread_idx it s = Some (Inr s)"
  by (subst sidetrack_loop.simps) simp

lemma sidetrack_loop_skip:
  "it < length (processes s thread_idx) \<Longrightarrow>
   arrival (heap s ! (processes s thread_idx ! it)) \<noteq> timer s \<Longrightarrow>
   sidetrack_loop thread_idx it s = sidetrack_loop thread_idx (Suc it) s"
  by (subst sidetrack_loop.simps) (simp add: Let_def)

lemma sidetrack_loop_dispatch:
  "it < length (processes s thread_idx) \<Longrightarrow>
   arrival (heap s ! (processes s thread_idx ! it)) = timer s \<Longrightarrow>
   ensure_pid_is_unique s thread_idx (pid (heap s ! (processes s thread_idx ! it))) \<Longrightarrow>
   events (heap s ! (processes s thread_idx ! it)) \<noteq> [] \<Longrightarrow>
   sidetrack_loop thread_idx it s =
     (case dispatch_process_by_first_event thread_idx (processes s thread_idx ! it) s of
        Inl e \<Rightarrow> Some (Inl e)
      | Inr s1 \<Rightarrow>
          sidetrack_loop thread_idx it
            (s1\<lparr>processes := (processes s1)(thread_idx := erase_at it (processes s1 thread_idx))\<rparr>))"
  by (subst sidetrack_loop.simps) (simp add: Let_def)

lemma stuck_log: "stuck t it (s\<lparr>stderr_log := l\<rparr>) = stuck t it s"
  by (simp add: stuck_def ensure_pid_is_unique_def split: option.splits)

lemma sidetrack_loop_not_stuck:
  assumes "sidetrack_loop thread_idx it s = Some r"
  shows "\<not> stuck thread_idx it s"
  apply (rule sidetrack_loop.raw_induct[where P = "\<lambda>t i s r. \<not> stuck t i s", OF _ assms])
  subgoal premises prems for f t i s' r'
  proof
    assume st: "stuck t i s'"
    then obtain l where "f t i (s'\<lparr>stderr_log := l\<rparr>) = Some r'"
      using prems(2) by (auto simp: stuck_def Let_def split: if_splits)
    from prems(1)[OF this] st show False by (simp add: stuck_log)
  qed
  done

lemma sidetrack_loop_stuck:
  "stuck thread_idx it s \<Longrightarrow> sidetrack_loop thread_idx it s = None"
  using sidetrack_loop_not_stuck by (cases "sidetrack_loop thread_idx it s") auto

lemma upt_MAX_THREADS: "[0..<MAX_THREADS] = [0, 1, 2, 3, 4, 5, 6, 7, 8]"
  by (simp add: MAX_THREADS_def upt_rec)

lemma complete_unfold:
  "complete s \<longleftrightarrow>
     \<not> list_ex (\<lambda>i. running s i \<noteq> None) [0, 1, 2, 3, 4, 5, 6, 7, 8] \<and>
     \<not> list_ex (\<lambda>i. processes s i \<noteq> []) [0, 1, 2, 3, 4, 5, 6, 7, 8] \<and>
     \<not> list_ex (\<lambda>i. ready s i \<noteq> []) [0, 1, 2, 3, 4, 5, 6, 7, 8] \<and>
     \<not> list_ex (\<lambda>i. waiting s i \<noteq> []) [0, 1, 2, 3, 4, 5, 6, 7, 8]"
  unfolding complete_def Let_def upt_MAX_THREADS by (rule refl)

lemma slot_count_unfold:
  "slot_count a s =
     sum_list (map (\<lambda>t. count_list (processes s t) a + count_list (ready s t) a
                         + count_list (waiting s t) a
                         + (if running s t = Some a then 1 else 0)) [0, 1, 2, 3, 4, 5, 6, 7, 8])"
  unfolding slot_count_def upt_MAX_THREADS by (rule refl)

lemma pending_processes_unfold:
  "pending_processes s =
     concat (map (\<lambda>t. map (\<lambda>a. heap s ! a) (processes s t)) [0, 1, 2, 3, 4, 5, 6, 7, 8])"
  unfolding pending_processes_def upt_MAX_THREADS by (rule refl)

lemmas engine_defs =
  new_scheduler_def named_scheduler_from_policy_def policy_name_from_kind_def
  switch_schedule_policy_def
  emplace_process_def make_shared_def make_process_def
  step_def step_thread_def step_observe_def sidetrack_processes_def
  update_waiting_list_def update_waiting_loop.simps update_running_def
  dispatch_process_by_first_event_def
  apply_schedule_policy_def FirstComeFirstServedPolicy_apply_def RoundRobinPolicy_apply_def
  ensure_pid_is_unique_def complete_unfold erase_at_def Let_def returned_def
  sidetrack_loop_end sidetrack_loop_skip sidetrack_loop_dispatch MAX_THREADS_def

lemmas ex_defs = fcfs_def cpu_event_def io_event_def

section \<open>What a tick leaves alone\<close>

lemma config_frame_refl [simp]: "config_frame s s"
  by (simp add: config_frame_def)

lemma config_frame_trans: "config_frame s s1 \<Longrightarrow> config_frame s1 s2 \<Longrightarrow> config_frame s s2"
  by (simp add: config_frame_def)

lemma ok_result_Inr [simp]: "ok_result s (Inr s') = config_frame s s'"
  by (simp add: ok_result_def)

lemma ok_result_Inl [simp]: "ok_result s (Inl e) = (e = AssertionFailed)"
  by (simp add: ok_result_def)

lemma ok_result_trans: "config_frame s s1 \<Longrightarrow> ok_result s1 r \<Longrightarrow> ok_result s r"
  by (cases r) (auto intro: config_frame_trans)

lemma dispatch_ok: "ok_result s (dispatch_process_by_first_event t p s)"
  by (simp add: dispatch_process_by_first_event_def Let_def config_frame_def split: EventKind.splits)

lemma sidetrack_loop_ok:
  assumes "sidetrack_loop thread_idx it s = Some r"
  shows "ok_result s r"
  apply (rule sidetrack_loop.raw_induct[where P = "\<lambda>t i s r. ok_result s r", OF _ assms])
  subgoal premises prems for f t i s' r'
  proof -
    have frame_log: "config_frame s' (s'\<lparr>stderr_log := l\<rparr>)" for l
      by (simp add: config_frame_def)
    have frame_erase: "config_frame s' (s1\<lparr>processes := q\<rparr>)" if "config_frame s' s1" for s1 q
      using that by (simp add: config_frame_def)
    show ?thesis
    proof (cases "dispatch_process_by_first_event t (processes s' t ! i) s'")
      case (Inl e)
      with dispatch_ok[of s' t "processes s' t ! i"] have "e = AssertionFailed" by simp
      with Inl prems(2) show ?thesis
        by (auto simp: Let_def dispatch_ok split: if_splits
                 dest!: prems(1) intro: ok_result_trans[OF frame_log])
    next
      case (Inr s1)
      with dispatch_ok[of s' t "processes s' t ! i"] have "config_frame s' s1" by simp
      from frame_erase[OF this] Inr prems(2) show ?thesis
        by (auto simp: Let_def split: if_splits
                 dest!: prems(1) intro: ok_result_trans[OF frame_log] ok_result_trans)
    qed
  qed
  done

lemma dispatch_frame:
  "dispatch_process_by_first_event t p s = Inr s' \<Longrightarrow> config_frame s s'"
  using dispatch_ok[of s t p] by simp

lemma dispatch_fault:
  "dispatch_process_by_first_event t p s = Inl e \<Longrightarrow> e = AssertionFailed"
  using dispatch_ok[of s t p] by simp

lemma loop_ok_trans: "loop_ok s1 r \<Longrightarrow> config_frame s s1 \<Longrightarrow> loop_ok s r"
  by (auto simp: loop_ok_def split: sum.splits intro: config_frame_trans)

lemma update_waiting_loop_ok: "loop_ok s (update_waiting_loop t it td s)"
proof (induction t it td s rule: update_waiting_loop.induct)
  case (1 thread_idx it to_dispatch s)
  have f1: "config_frame s (s\<lparr>heap := h, waiting := w\<rparr>)" for h w
    by (simp add: config_frame_def)
  have f2: "config_frame s (s\<lparr>heap := h, finished := f, waiting := w\<rparr>)" for h f w
    by (simp add: config_frame_def)
  have f3: "config_frame s (s\<lparr>heap := h\<rparr>)" for h
    by (simp add: config_frame_def)
  show ?case
  proof (cases "length (waiting s thread_idx) \<le> it")
    case True
    then show ?thesis
      by (subst update_waiting_loop.simps) (simp add: loop_ok_def)
  next
    case False
    have ifI: "(c \<Longrightarrow> loop_ok s a) \<Longrightarrow> (\<not> c \<Longrightarrow> loop_ok s b) \<Longrightarrow> loop_ok s (if c then a else b)"
      for c a b by simp
    show ?thesis
      apply (subst update_waiting_loop.simps)
      apply (simp only: Let_def False if_False)
      apply (rule ifI, simp add: loop_ok_def)
      apply (rule ifI, simp add: loop_ok_def)
      apply (rule ifI, simp add: loop_ok_def)
      apply (rule ifI)
       apply (rule ifI)
        apply (rule loop_ok_trans[OF _ f1], rule 1(1); (simp add: False)?)
       apply (rule loop_ok_trans[OF _ f2], rule 1(2); (simp add: False)?)
      apply (rule loop_ok_trans[OF _ f3], rule 1(3); (simp add: False)?)
      done
  qed
qed

lemma dispatch_all_ok: "ok_result s (dispatch_all t ps s)"
proof (induction ps arbitrary: s)
  case Nil
  then show ?case by simp
next
  case (Cons p ps)
  show ?case
  proof (cases "dispatch_process_by_first_event t p s")
    case (Inl e)
    then show ?thesis by (simp add: dispatch_fault)
  next
    case (Inr s1)
    with Cons[of s1] dispatch_frame[OF Inr] show ?thesis
      by (auto intro: ok_result_trans)
  qed
qed

lemma update_waiting_list_ok: "ok_result s (update_waiting_list t s)"
proof (cases "update_waiting_loop t 0 [] s")
  case (Inl e)
  with update_waiting_loop_ok[of s t 0 "[]"] show ?thesis
    by (simp add: update_waiting_list_def loop_ok_def)
next
  case (Inr r)
  obtain td s1 where r: "r = (td, s1)" by (cases r)
  with Inr update_waiting_loop_ok[of s t 0 "[]"] have "config_frame s s1"
    by (simp add: loop_ok_def)
  with Inr r dispatch_all_ok[of s1 t td] show ?thesis
    by (auto simp: update_waiting_list_def intro: ok_result_trans)
qed

lemma update_running_ok: "ok_result s (update_running t s)"
proof (cases "running s t")
  case None
  then show ?thesis by (simp add: update_running_def)
next
  case (Some a)
  have f1: "config_frame s (s\<lparr>heap := h\<rparr>)" for h
    by (simp add: config_frame_def)
  have f2: "config_frame s (s\<lparr>heap := h, finished := f, running := q\<rparr>)" for h f q
    by (simp add: config_frame_def)
  have f3: "config_frame s (s1\<lparr>running := q\<rparr>)" if "config_frame s s1" for s1 q
    using that by (simp add: config_frame_def)
  show ?thesis
    using Some
    by (auto simp: update_running_def Let_def f1 f2 split: sum.splits
             dest!: dispatch_frame dispatch_fault
             intro!: f3 intro: config_frame_trans[OF f1])
qed

lemma fcfs_loop_ok: "\<forall>t\<in>set idxs. t < MAX_THREADS \<Longrightarrow> ok_result s (fcfs_loop idxs s)"
proof (induction idxs arbitrary: s)
  case Nil
  then show ?case by simp
next
  case (Cons t idxs)
  have f: "config_frame s (s\<lparr>ready := r, running := q\<rparr>)" for r q
    by (simp add: config_frame_def)
  from Cons show ?case
    by (auto simp: Let_def intro: ok_result_trans[OF f])
qed

lemma rr_loop_ok: "\<forall>t\<in>set idxs. t < MAX_THREADS \<Longrightarrow> ok_result s (rr_loop q idxs s)"
proof (induction idxs arbitrary: s)
  case Nil
  then show ?case by simp
next
  case (Cons t idxs)
  have f1: "config_frame s (s\<lparr>ready := r, running := q\<rparr>)" for r q
    by (simp add: config_frame_def)
  have f2: "config_frame s (s\<lparr>ready := r, running := q, heap := h\<rparr>)" for r q h
    by (simp add: config_frame_def)
  from Cons show ?case
    by (auto simp: Let_def intro: ok_result_trans[OF f1] ok_result_trans[OF f2])
qed

lemma apply_schedule_policy_ok:
  "threads_count s \<le> MAX_THREADS \<Longrightarrow> ok_result s (apply_schedule_policy s)"
  by (auto simp: apply_schedule_policy_def FirstComeFirstServedPolicy_apply_def
        RoundRobinPolicy_apply_def split: PolicyFn.splits intro!: fcfs_loop_ok rr_loop_ok)

lemma step_observe_frame: "config_frame s (step_observe t s)"
  by (simp add: step_observe_def Let_def config_frame_def split: option.splits)

lemma step_thread_ok:
  assumes "t < MAX_THREADS" "threads_count s \<le> MAX_THREADS" "step_thread t s = Some r"
  shows "ok_result s r"
proof -
  from assms(1,3) obtain r1 where r1: "sidetrack_loop t 0 s = Some r1"
    by (auto simp: step_thread_def sidetrack_processes_def split: option.splits)
  note ok1 = sidetrack_loop_ok[OF r1]
  show ?thesis
  proof (cases r1)
    case (Inl e)
    with assms(1,3) r1 ok1 show ?thesis
      by (auto simp: step_thread_def sidetrack_processes_def)
  next
    case (Inr s1)
    with ok1 have c1: "config_frame s s1" by simp
    show ?thesis
    proof (cases "update_waiting_list t s1")
      case Inl2: (Inl e)
      with update_waiting_list_ok[of s1 t] assms(1,3) r1 Inr show ?thesis
        by (auto simp: step_thread_def sidetrack_processes_def)
    next
      case Inr2: (Inr s2)
      with update_waiting_list_ok[of s1 t] c1 have c2: "config_frame s s2"
        by (auto intro: config_frame_trans)
      show ?thesis
      proof (cases "update_running t s2")
        case Inl3: (Inl e)
        with update_running_ok[of s2 t] assms(1,3) r1 Inr Inr2 show ?thesis
          by (auto simp: step_thread_def sidetrack_processes_def)
      next
        case Inr3: (Inr s3)
        with update_running_ok[of s2 t] c2 have c3: "config_frame s s3"
          by (auto intro: config_frame_trans)
        then have tc: "threads_count s3 \<le> MAX_THREADS"
          using assms(2) by (simp add: config_frame_def)
        define r4 where "r4 = (if running s3 t = None then apply_schedule_policy s3 else Inr s3)"
        have ok4: "ok_result s3 r4"
          using apply_schedule_policy_ok[OF tc] by (simp add: r4_def)
        have r: "r = (case r4 of Inl e \<Rightarrow> Inl e | Inr s4 \<Rightarrow> Inr (step_observe t s4))"
          using assms(1,3) r1 Inr Inr2 Inr3
          by (simp add: step_thread_def sidetrack_processes_def r4_def)
        show ?thesis
        proof (cases r4)
          case Inl4: (Inl e)
          with ok4 r show ?thesis by auto
        next
          case Inr4: (Inr s4)
          with ok4 c3 have "config_frame s s4" by (auto intro: config_frame_trans)
          with step_observe_frame[of s4 t] r Inr4 show ?thesis
            by (auto intro: config_frame_trans)
        qed
      qed
    qed
  qed
qed

lemma step_threads_ok:
  "\<forall>t\<in>set idxs. t < MAX_THREADS \<Longrightarrow> threads_count s \<le> MAX_THREADS \<Longrightarrow>
   step_threads idxs s = Some r \<Longrightarrow> ok_result s r"
proof (induction idxs arbitrary: s)
  case Nil
  then show ?case by auto
next
  case (Cons t idxs)
  from Cons.prems(3) obtain r1 where r1: "step_thread t s = Some r1"
    by (auto split: option.splits)
  from Cons.prems have "t < MAX_THREADS" by simp
  note ok1 = step_thread_ok[OF this Cons.prems(2) r1]
  show ?case
  proof (cases r1)
    case (Inl e)
    with r1 ok1 Cons.prems(3) show ?thesis by auto
  next
    case (Inr s1)
    with ok1 have c: "config_frame s s1" by simp
    then have "threads_count s1 \<le> MAX_THREADS"
      using Cons.prems(2) by (simp add: config_frame_def)
    moreover have "step_threads idxs s1 = Some r"
      using Cons.prems(3) r1 Inr by simp
    ultimately have "ok_result s1 r"
      using Cons.IH Cons.prems(1) by simp
    with c show ?thesis by (rule ok_result_trans)
  qed
qed

lemma step_ok:
  assumes "threads_count s \<le> MAX_THREADS" "step s = Some r"
  shows "case r of Inl e \<Rightarrow> e = AssertionFailed
         | Inr s' \<Rightarrow> config_frame (s\<lparr>valid_backup := True\<rparr>) s'"
proof -
  let ?s0 = "s\<lparr>valid_backup := True\<rparr>"
  from assms(2) obtain r1 where r1: "step_threads [0..<threads_count s] ?s0 = Some r1"
    by (auto simp: step_def Let_def split: option.splits)
  have "ok_result ?s0 r1"
    by (rule step_threads_ok[OF _ _ r1]) (use assms(1) in auto)
  with assms(2) r1 show ?thesis
    by (cases r1) (auto simp: step_def Let_def config_frame_def)
qed

lemma restart_queue_eq:
  "restart_queue idx q s =
     s\<lparr>heap := heap s @ q,
       processes := (processes s)(idx := processes s idx @ [length (heap s)..<length (heap s) + length q])\<rparr>"
proof (induction q arbitrary: s)
  case Nil
  show ?case by simp
next
  case (Cons p q)
  have u: "[length (heap s)..<length (heap s) + length (p # q)]
        = length (heap s) # [Suc (length (heap s))..<Suc (length (heap s)) + length q]"
    by (simp add: upt_conv_Cons del: upt_Suc)
  show ?case
    unfolding u by (simp add: Cons make_shared_def del: upt_Suc cong: if_cong)
qed

lemma restart_slots_frame:
  "config_frame s (restart_slots idxs s) \<and> timer (restart_slots idxs s) = timer s
   \<and> throughput (restart_slots idxs s) = throughput s
   \<and> finished (restart_slots idxs s) = finished s
   \<and> cpu_usage (restart_slots idxs s) = cpu_usage s
   \<and> running (restart_slots idxs s) = running s
   \<and> ready (restart_slots idxs s) = ready s
   \<and> waiting (restart_slots idxs s) = waiting s"
proof (induction idxs arbitrary: s)
  case Nil
  show ?case by simp
next
  case (Cons i idxs)
  show ?case
    using Cons[of "restart_queue i (processes_backup s i) s"]
    by (simp add: restart_queue_eq config_frame_def)
qed

lemma drive_in_range:
  assumes "in_range s" "\<forall>n. c = SetThreadsCount n \<longrightarrow> 1 \<le> n \<and> n \<le> MAX_THREADS"
  shows "safe_outcome (drive c s)"
proof (cases c)
  case (EmplaceProcess n p a es)
  from assms(1) have "(next_thread s + 1) mod threads_count s < MAX_THREADS"
  proof -
    from assms(1) have "0 < threads_count s" by (simp add: in_range_def)
    then have "(next_thread s + 1) mod threads_count s < threads_count s" by simp
    with assms(1) show ?thesis by (simp add: in_range_def)
  qed
  with assms(1) EmplaceProcess show ?thesis
    by (auto simp: safe_outcome_def in_range_def emplace_process_def make_shared_def Let_def
             split: sum.splits prod.splits if_splits)
next
  case (SwitchSchedulePolicy pol)
  with assms(1) show ?thesis
    by (simp add: safe_outcome_def in_range_def switch_schedule_policy_def)
next
  case (SetThreadsCount n)
  with assms show ?thesis
    by (simp add: safe_outcome_def in_range_def)
next
  case (SetMaxProcesses n)
  with assms(1) show ?thesis
    by (simp add: safe_outcome_def in_range_def)
next
  case (SetMaxEventsPerProcess n)
  with assms(1) show ?thesis
    by (simp add: safe_outcome_def in_range_def)
next
  case (SetMaxSingleEventDuration n)
  with assms(1) show ?thesis
    by (simp add: safe_outcome_def in_range_def)
next
  case (SetMaxArrivalTime n)
  with assms(1) show ?thesis
    by (simp add: safe_outcome_def in_range_def)
next
  case Step
  show ?thesis
  proof (cases "step s")
    case None
    with Step show ?thesis by (simp add: safe_outcome_def)
  next
    case (Some r)
    from assms(1) have "threads_count s \<le> MAX_THREADS" by (simp add: in_range_def)
    from step_ok[OF this Some] assms(1) Some Step show ?thesis
      by (cases r) (auto simp: safe_outcome_def in_range_def config_frame_def)
  qed
next
  case Restart
  with assms(1) restart_slots_frame[of "s\<lparr>timer := 0, next_thread := 0, throughput := 0,
                 previous_finished_count := 0, finished := []\<rparr>" "[0..<MAX_THREADS]"]
  show ?thesis
    by (auto simp: safe_outcome_def in_range_def restart_def Let_def config_frame_def MAX_THREADS_def)
qed

lemma run_in_range:
  "in_range s \<Longrightarrow> \<forall>c\<in>set calls. \<forall>n. c = SetThreadsCount n \<longrightarrow> 1 \<le> n \<and> n \<le> MAX_THREADS \<Longrightarrow>
   safe_outcome (run calls s)"
proof (induction calls arbitrary: s)
  case Nil
  then show ?case by (simp add: safe_outcome_def)
next
  case (Cons c calls)
  from Cons.prems have d: "safe_outcome (drive c s)"
    by (intro drive_in_range) auto
  show ?case
  proof (cases "drive c s")
    case None
    then show ?thesis by (simp add: safe_outcome_def)
  next
    case (Some r)
    show ?thesis
    proof (cases r)
      case (Inl e)
      with Some d show ?thesis by (simp add: safe_outcome_def)
    next
      case (Inr s1)
      with Some d have "in_range s1" by (simp add: safe_outcome_def)
      from Cons.IH[OF this] Cons.prems(2) Some Inr show ?thesis by simp
    qed
  qed
qed

lemma complete_iff:
  "complete s \<longleftrightarrow>
     (\<forall>i<MAX_THREADS. running s i = None \<and> processes s i = [] \<and> ready s i = [] \<and> waiting s i = [])"
  by (auto simp: complete_def list_ex_iff)

lemma idle_observe_aux:
  "idle_inv ((if complete z then z\<lparr>cpu_usage := (\<lambda>_. 0)\<rparr> else z)
               \<lparr>throughput := a, previous_finished_count := b\<rparr>)"
  by (simp add: idle_inv_def complete_def)

lemma step_observe_idle: "idle_inv (step_observe t s)"
  unfolding step_observe_def Let_def by (rule idle_observe_aux)

lemma step_thread_idle: "step_thread t s = Some (Inr s') \<Longrightarrow> idle_inv s'"
  by (auto simp: step_thread_def step_observe_idle split: if_splits option.splits sum.splits)

lemma step_threads_idle:
  "idle_inv s \<Longrightarrow> step_threads idxs s = Some (Inr s') \<Longrightarrow> idle_inv s'"
proof (induction idxs arbitrary: s)
  case Nil
  then show ?case by simp
next
  case (Cons t idxs)
  then show ?case
    by (auto split: option.splits sum.splits dest: step_thread_idle)
qed

lemma step_idle: "idle_inv s \<Longrightarrow> step s = Some (Inr s') \<Longrightarrow> idle_inv s'"
proof -
  assume a: "idle_inv s" "step s = Some (Inr s')"
  from a(1) have "idle_inv (s\<lparr>valid_backup := True\<rparr>)"
    by (simp add: idle_inv_def complete_iff)
  with a(2) obtain s1 where "idle_inv s1" "s' = s1\<lparr>timer := timer s1 + 1\<rparr>"
    by (auto simp: step_def Let_def split: option.splits sum.splits dest: step_threads_idle)
  then show ?thesis by (simp add: idle_inv_def complete_iff)
qed

lemma drive_idle: "idle_inv s \<Longrightarrow> drive c s = Some (Inr s') \<Longrightarrow> idle_inv s'"
proof (cases c)
  case (EmplaceProcess n p a es)
  assume "drive c s = Some (Inr s')"
  with EmplaceProcess have "\<not> complete s'"
    by (auto simp: emplace_process_def make_shared_def Let_def complete_iff
             split: if_splits sum.splits prod.splits)
  then show ?thesis by (simp add: idle_inv_def)
next
  case (SwitchSchedulePolicy pol)
  assume "idle_inv s" "drive c s = Some (Inr s')"
  with SwitchSchedulePolicy show ?thesis
    by (auto simp: idle_inv_def complete_iff switch_schedule_policy_def)
next
  case (SetThreadsCount n)
  assume "idle_inv s" "drive c s = Some (Inr s')"
  with SetThreadsCount show ?thesis
    by (auto simp: idle_inv_def complete_iff)
next
  case (SetMaxProcesses n)
  assume "idle_inv s" "drive c s = Some (Inr s')"
  with SetMaxProcesses show ?thesis
    by (auto simp: idle_inv_def complete_iff)
next
  case (SetMaxEventsPerProcess n)
  assume "idle_inv s" "drive c s = Some (Inr s')"
  with SetMaxEventsPerProcess show ?thesis
    by (auto simp: idle_inv_def complete_iff)
next
  case (SetMaxSingleEventDuration n)
  assume "idle_inv s" "drive c s = Some (Inr s')"
  with SetMaxSingleEventDuration show ?thesis
    by (auto simp: idle_inv_def complete_iff)
next
  case (SetMaxArrivalTime n)
  assume "idle_inv s" "drive c s = Some (Inr s')"
  with SetMaxArrivalTime show ?thesis
    by (auto simp: idle_inv_def complete_iff)
next
  case Step
  assume "idle_inv s" "drive c s = Some (Inr s')"
  with Step show ?thesis by (auto dest: step_idle)
next
  case Restart
  assume a: "idle_inv s" "drive c s = Some (Inr s')"
  let ?s1 = "s\<lparr>timer := 0, next_thread := 0, throughput := 0,
                 previous_finished_count := 0, finished := []\<rparr>"
  from a(2) Restart have s': "s' = restart_slots [0..<MAX_THREADS] ?s1"
    by (auto simp: restart_def Let_def split: if_splits)
  have grow: "processes (restart_slots idxs z) t = [] \<Longrightarrow> processes z t = []" for idxs z t
  proof (induction idxs arbitrary: z)
    case Nil
    then show ?case by simp
  next
    case (Cons i idxs)
    from Cons.IH[OF Cons.prems[simplified]] show ?case
      by (auto simp: restart_queue_eq split: if_splits)
  qed
  from restart_slots_frame[of ?s1 "[0..<MAX_THREADS]"] s' a(1) grow[of "[0..<MAX_THREADS]" ?s1]
  show ?thesis
    by (auto simp: idle_inv_def complete_iff)
qed

lemma run_idle: "idle_inv s \<Longrightarrow> run calls s = Some (Inr s') \<Longrightarrow> idle_inv s'"
proof (induction calls arbitrary: s)
  case Nil
  then show ?case by simp
next
  case (Cons c calls)
  then show ?case
    by (auto split: option.splits sum.splits dest: drive_idle)
qed

lemma new_scheduler_idle: "idle_inv (new_scheduler p)"
  by (simp add: idle_inv_def new_scheduler_def)

lemma step_thread_complete:
  assumes "complete s" "cpu_usage s = (\<lambda>_. 0)" "t < MAX_THREADS" "0 < threads_count s"
  shows "step_thread t s =
           Some (Inr (s\<lparr>throughput :=
                          (if timer s \<noteq> 0 then real (length (finished s)) / real (timer s) else 0),
                        previous_finished_count := length (finished s)\<rparr>))"
proof -
  from assms(1,3) have q: "running s t = None" "processes s t = []" "ready s t = []" "waiting s t = []"
    by (simp_all add: complete_iff)
  from assms(1) have r0: "ready s 0 = []"
    by (simp add: complete_iff MAX_THREADS_def)
  from assms(4) have idx: "[0..<threads_count s] = 0 # [Suc 0..<threads_count s]"
    by (simp add: upt_conv_Cons)
  have pol: "apply_schedule_policy s = Inr s"
    by (simp add: apply_schedule_policy_def FirstComeFirstServedPolicy_apply_def
          RoundRobinPolicy_apply_def idx r0 MAX_THREADS_def split: PolicyFn.splits)
  have side: "sidetrack_processes t s = Some (Inr s)"
    by (simp add: sidetrack_processes_def sidetrack_loop_end q)
  have wait: "update_waiting_list t s = Inr s"
    by (simp add: update_waiting_list_def update_waiting_loop.simps q)
  have runn: "update_running t s = Inr s"
    by (simp add: update_running_def q)
  have obs: "step_observe t s =
      s\<lparr>throughput := (if timer s \<noteq> 0 then real (length (finished s)) / real (timer s) else 0),
        previous_finished_count := length (finished s)\<rparr>"
    using assms(1,2) by (simp add: step_observe_def q)
  show ?thesis
    using assms(3) by (simp add: step_thread_def side wait runn pol q obs)
qed

lemma step_threads_complete:
  "complete s \<Longrightarrow> cpu_usage s = (\<lambda>_. 0) \<Longrightarrow> \<forall>t\<in>set idxs. t < MAX_THREADS \<Longrightarrow>
   0 < threads_count s \<Longrightarrow>
   \<exists>a b. step_threads idxs s = Some (Inr (s\<lparr>throughput := a, previous_finished_count := b\<rparr>))"
proof (induction idxs arbitrary: s)
  case Nil
  have "s = s\<lparr>throughput := throughput s, previous_finished_count := previous_finished_count s\<rparr>"
    by simp
  then show ?case by (metis step_threads.simps(1))
next
  case (Cons t idxs)
  let ?s1 = "s\<lparr>throughput :=
                  (if timer s \<noteq> 0 then real (length (finished s)) / real (timer s) else 0),
                previous_finished_count := length (finished s)\<rparr>"
  from Cons.prems have st: "step_thread t s = Some (Inr ?s1)"
    by (intro step_thread_complete) auto
  from Cons.prems have "complete ?s1" "cpu_usage ?s1 = (\<lambda>_. 0)" "0 < threads_count ?s1"
    by (simp_all add: complete_def)
  from Cons.IH[OF this(1,2) _ this(3)] Cons.prems(3)
  obtain a b where "step_threads idxs ?s1 = Some (Inr (?s1\<lparr>throughput := a, previous_finished_count := b\<rparr>))"
    by auto
  with st have "step_threads (t # idxs) s = Some (Inr (s\<lparr>throughput := a, previous_finished_count := b\<rparr>))"
    by simp
  then show ?case by blast
qed

lemma step_complete:
  assumes "complete s" "cpu_usage s = (\<lambda>_. 0)" "threads_count s \<le> MAX_THREADS"
  shows "\<exists>a b. step s = Some (Inr (s\<lparr>valid_backup := True, throughput := a,
                                      previous_finished_count := b, timer := timer s + 1\<rparr>))"
proof (cases "threads_count s = 0")
  case True
  have "s\<lparr>valid_backup := True, timer := timer s + 1\<rparr>
        = s\<lparr>valid_backup := True, throughput := throughput s,
            previous_finished_count := previous_finished_count s, timer := timer s + 1\<rparr>"
    by simp
  moreover have "step s = Some (Inr (s\<lparr>valid_backup := True, timer := timer s + 1\<rparr>))"
    using True by (simp add: step_def)
  ultimately show ?thesis by metis
next
  case False
  let ?s0 = "s\<lparr>valid_backup := True\<rparr>"
  have "complete ?s0" "cpu_usage ?s0 = (\<lambda>_. 0)" "0 < threads_count ?s0"
    using assms False by (simp_all add: complete_def)
  from step_threads_complete[OF this(1,2) _ this(3), of "[0..<threads_count ?s0]"] assms(3)
  obtain a b where
    "step_threads [0..<threads_count ?s0] ?s0 = Some (Inr (?s0\<lparr>throughput := a, previous_finished_count := b\<rparr>))"
    by auto
  then have "step s = Some (Inr (s\<lparr>valid_backup := True, throughput := a,
                                      previous_finished_count := b, timer := timer s + 1\<rparr>))"
    by (simp add: step_def Let_def)
  then show ?thesis by blast
qed

lemma steps_complete:
  "complete s \<Longrightarrow> cpu_usage s = (\<lambda>_. 0) \<Longrightarrow> threads_count s \<le> MAX_THREADS \<Longrightarrow>
   \<exists>s'. steps n s = Some (Inr s') \<and> complete s' \<and> finished s' = finished s
        \<and> cpu_usage s' = cpu_usage s \<and> processes s' = processes s \<and> ready s' = ready s
        \<and> waiting s' = waiting s \<and> running s' = running s \<and> heap s' = heap s"
proof (induction n arbitrary: s)
  case 0
  then show ?case by simp
next
  case (Suc n)
  from step_complete[OF Suc.prems] obtain a b where
    st: "step s = Some (Inr (s\<lparr>valid_backup := True, throughput := a,
                               previous_finished_count := b, timer := timer s + 1\<rparr>))"
    by blast
  let ?s1 = "s\<lparr>valid_backup := True, throughput := a,
               previous_finished_count := b, timer := timer s + 1\<rparr>"
  from Suc.prems have "complete ?s1" "cpu_usage ?s1 = (\<lambda>_. 0)" "threads_count ?s1 \<le> MAX_THREADS"
    by (simp_all add: complete_def)
  from Suc.IH[OF this] st Suc.prems(2) show ?case by auto
qed

lemma mset_concat_upd:
  "i < n \<Longrightarrow> mset (concat (map (f(i := f i @ [x])) [0..<n])) = mset (concat (map f [0..<n])) + {#x#}"
proof (induction n)
  case 0
  then show ?case by simp
next
  case (Suc n)
  show ?case
  proof (cases "i = n")
    case True
    then have "map (f(i := f i @ [x])) [0..<n] = map f [0..<n]"
      by (intro map_cong) auto
    moreover have "(f(i := f i @ [x])) n = f n @ [x]" using True by simp
    ultimately show ?thesis by (simp del: fun_upd_apply map_eq_conv)
  next
    case False
    with Suc.prems have "i < n" by simp
    from Suc.IH[OF this] False show ?thesis by simp
  qed
qed

lemma emplace_backup:
  assumes "\<not> valid_backup s" "emplace_process n p a es s = Inr (ret, s')"
  shows "\<not> valid_backup s' \<and> backup_multiset s' = backup_multiset s + {#make_process n p a es#}
       \<and> schedule_policy s' = schedule_policy s \<and> threads_count s' = threads_count s
       \<and> max_processes s' = max_processes s
       \<and> max_events_per_process s' = max_events_per_process s
       \<and> max_single_event_duration s' = max_single_event_duration s
       \<and> max_arrival_time s' = max_arrival_time s"
proof -
  from assms(2) have nt: "next_thread s < MAX_THREADS"
    by (auto simp: emplace_process_def split: if_splits)
  from assms nt have s': "s' = s\<lparr>heap := heap s @ [make_process n p a es],
       processes := (processes s)(next_thread s := processes s (next_thread s) @ [length (heap s)]),
       processes_backup := (processes_backup s)(next_thread s :=
          processes_backup s (next_thread s) @ [make_process n p a es]),
       next_thread := (next_thread s + 1) mod threads_count s\<rparr>"
    by (auto simp: emplace_process_def make_shared_def Let_def split: if_splits)
  show ?thesis
    using assms(1) mset_concat_upd[OF nt, of "processes_backup s" "make_process n p a es"]
    by (simp add: s' backup_multiset_def)
qed

lemma run_spawns:
  "run (map (\<lambda>(n, p, a, es). EmplaceProcess n p a es) ps) s = Some (Inr s0) \<Longrightarrow> \<not> valid_backup s \<Longrightarrow>
   \<not> valid_backup s0
   \<and> backup_multiset s0 = backup_multiset s + mset (map (\<lambda>(n, p, a, es). make_process n p a es) ps)
   \<and> schedule_policy s0 = schedule_policy s \<and> threads_count s0 = threads_count s
   \<and> max_processes s0 = max_processes s
   \<and> max_events_per_process s0 = max_events_per_process s
   \<and> max_single_event_duration s0 = max_single_event_duration s
   \<and> max_arrival_time s0 = max_arrival_time s"
proof (induction ps arbitrary: s)
  case Nil
  then show ?case by simp
next
  case (Cons x ps)
  obtain n p a es where x: "x = (n, p, a, es)" by (cases x)
  from Cons.prems(1) x obtain ret s1 where
    e: "emplace_process n p a es s = Inr (ret, s1)"
    and r: "run (map (\<lambda>(n, p, a, es). EmplaceProcess n p a es) ps) s1 = Some (Inr s0)"
    by (auto split: sum.splits)
  note e1 = emplace_backup[OF Cons.prems(2) e]
  from e1 have "\<not> valid_backup s1" by simp
  from Cons.IH[OF r this] e1 x show ?case by simp
qed

lemma step_threads_append:
  "step_threads (xs @ ys) s =
     (case step_threads xs s of
        None \<Rightarrow> None
      | Some (Inl e) \<Rightarrow> Some (Inl e)
      | Some (Inr s1) \<Rightarrow> step_threads ys s1)"
  by (induction xs arbitrary: s) (auto split: option.splits sum.splits)

lemma step_returns_bound:
  assumes "step s = Some (Inr s')"
  shows "threads_count s \<le> MAX_THREADS"
proof (rule ccontr)
  assume "\<not> threads_count s \<le> MAX_THREADS"
  then have "[0..<threads_count s] = [0..<MAX_THREADS] @ (MAX_THREADS # [Suc MAX_THREADS..<threads_count s])"
    by (metis le_add_diff_inverse less_imp_le_nat not_le upt_add_eq_append upt_conv_Cons zero_le)
  moreover have "step_threads (MAX_THREADS # idxs) z \<noteq> Some (Inr z')" for idxs z z'
    by (simp add: step_thread_def)
  ultimately have "step_threads [0..<threads_count s] (s\<lparr>valid_backup := True\<rparr>) \<noteq> Some (Inr z')" for z'
    by (simp add: step_threads_append split: option.splits sum.splits)
  with assms show False
    by (auto simp: step_def Let_def split: option.splits sum.splits)
qed

lemma step_frame:
  assumes "step s = Some (Inr s')"
  shows "config_frame (s\<lparr>valid_backup := True\<rparr>) s'"
  using step_ok[OF step_returns_bound[OF assms] assms] by simp

lemma steps_frame:
  "steps (Suc k) s = Some (Inr s1) \<Longrightarrow> config_frame (s\<lparr>valid_backup := True\<rparr>) s1"
proof (induction k arbitrary: s)
  case 0
  then show ?case
    by (auto split: option.splits sum.splits dest: step_frame)
next
  case (Suc k)
  from Suc.prems obtain s' where st: "step s = Some (Inr s')" and r: "steps (Suc k) s' = Some (Inr s1)"
    by (auto split: option.splits sum.splits)
  from step_frame[OF st] Suc.IH[OF r] show ?case
    by (simp add: config_frame_def)
qed

lemma map_nth_middle:
  "map (nth (xs @ ys @ zs)) [length xs..<length xs + length ys] = ys"
  by (rule nth_equalityI) (auto simp: nth_append)

lemma restart_slots_pending:
  "distinct idxs \<Longrightarrow>
   (\<exists>h. heap (restart_slots idxs s) = heap s @ h) \<and>
   (\<forall>t. t \<notin> set idxs \<longrightarrow> processes (restart_slots idxs s) t = processes s t) \<and>
   (\<forall>t\<in>set idxs. \<exists>as. processes (restart_slots idxs s) t = processes s t @ as
        \<and> map (nth (heap (restart_slots idxs s))) as = processes_backup s t)"
proof (induction idxs arbitrary: s)
  case Nil
  then show ?case by simp
next
  case (Cons i idxs)
  let ?s1 = "restart_queue i (processes_backup s i) s"
  let ?R = "restart_slots idxs ?s1"
  have R: "restart_slots (i # idxs) s = ?R" by simp
  have h1: "heap ?s1 = heap s @ processes_backup s i"
    and p1: "processes ?s1 = (processes s)(i := processes s i
                @ [length (heap s)..<length (heap s) + length (processes_backup s i)])"
    and b1: "processes_backup ?s1 = processes_backup s"
    by (simp_all add: restart_queue_eq)
  from Cons.prems have d: "distinct idxs" and ni: "i \<notin> set idxs" by simp_all
  from Cons.IH[OF d, of ?s1] obtain h where
    hR: "heap ?R = heap ?s1 @ h"
    and out: "\<forall>t. t \<notin> set idxs \<longrightarrow> processes ?R t = processes ?s1 t"
    and inn: "\<forall>t\<in>set idxs. \<exists>as. processes ?R t = processes ?s1 t @ as
                \<and> map (nth (heap ?R)) as = processes_backup ?s1 t"
    by blast
  have a: "\<exists>h. heap ?R = heap s @ h"
    using hR h1 by simp
  have b: "\<forall>t. t \<notin> set (i # idxs) \<longrightarrow> processes ?R t = processes s t"
    using out p1 by simp
  have c: "\<exists>as. processes ?R t = processes s t @ as \<and> map (nth (heap ?R)) as = processes_backup s t"
    if "t \<in> set (i # idxs)" for t
  proof (cases "t = i")
    case True
    have "processes ?R i = processes s i @ [length (heap s)..<length (heap s) + length (processes_backup s i)]"
      using out ni p1 by simp
    moreover have "map (nth (heap ?R)) [length (heap s)..<length (heap s) + length (processes_backup s i)]
                   = processes_backup s i"
      unfolding hR h1 using map_nth_middle[of "heap s" "processes_backup s i" h] by simp
    ultimately show ?thesis using True by blast
  next
    case False
    with that have "t \<in> set idxs" by simp
    with inn obtain as where "processes ?R t = processes ?s1 t @ as"
      "map (nth (heap ?R)) as = processes_backup ?s1 t" by blast
    with False p1 b1 show ?thesis by simp
  qed
  show ?case unfolding R using a b c by blast
qed

lemma restart_empty_pending:
  assumes "valid_backup s" "\<forall>t<MAX_THREADS. processes s t = []"
  shows "\<exists>s2. restart s = Inr s2 \<and> pending_multiset s2 = backup_multiset s
       \<and> timer s2 = 0 \<and> throughput s2 = 0 \<and> finished s2 = []
       \<and> schedule_policy s2 = schedule_policy s \<and> threads_count s2 = threads_count s
       \<and> max_processes s2 = max_processes s
       \<and> max_events_per_process s2 = max_events_per_process s
       \<and> max_single_event_duration s2 = max_single_event_duration s
       \<and> max_arrival_time s2 = max_arrival_time s"
proof -
  let ?s1 = "s\<lparr>timer := 0, next_thread := 0, throughput := 0,
               previous_finished_count := 0, finished := []\<rparr>"
  let ?s2 = "restart_slots [0..<MAX_THREADS] ?s1"
  have r: "restart s = Inr ?s2"
    using assms(1) by (simp add: restart_def)
  have "map (nth (heap ?s2)) (processes ?s2 t) = processes_backup s t" if "t < MAX_THREADS" for t
  proof -
    from that have "t \<in> set [0..<MAX_THREADS]" by simp
    with restart_slots_pending[of "[0..<MAX_THREADS]" ?s1] obtain as where
      "processes ?s2 t = processes ?s1 t @ as" "map (nth (heap ?s2)) as = processes_backup ?s1 t"
      by (metis distinct_upt)
    with assms(2) that show ?thesis by simp
  qed
  then have "map (\<lambda>t. map (\<lambda>a. heap ?s2 ! a) (processes ?s2 t)) [0..<MAX_THREADS]
             = map (processes_backup s) [0..<MAX_THREADS]"
    by (intro map_cong) auto
  then have pm: "pending_multiset ?s2 = backup_multiset s"
    by (simp add: pending_multiset_def pending_processes_def backup_multiset_def del: map_eq_conv)
  from restart_slots_frame[of ?s1 "[0..<MAX_THREADS]"] r pm show ?thesis
    by (simp add: config_frame_def)
qed

section \<open>The event list of \<^verbatim>\<open>spawn_process\<close>\<close>

lemma list_as_events_loop_in_bounds:
  "\<forall>v\<in>set list. \<forall>tuple. v = VList tuple \<longrightarrow> 2 \<le> length tuple \<Longrightarrow>
   \<exists>r. list_as_events_loop rs list evs s = Inr r"
proof (induction list arbitrary: evs s)
  case Nil
  then show ?case by simp
next
  case (Cons v list)
  then show ?case
    by (auto split: Value.splits option.splits)
qed

section \<open>The claims\<close>

text \<open>
  C1. The claim: a pending process that has arrived but whose pid is in use on its core,
  or that has no events, is dropped after a diagnostic, and \<open>step\<close> returns. On the
  code, two processes spawned on one core with the same pid and the same arrival make the
  first \<open>step\<close> never return: the first is dispatched, the second is refused, and the
  loop of \<^verbatim>\<open>sidetrack_processes\<close> goes round on it for ever. A single process
  without events does the same.
\<close>

theorem C1_duplicate_pid_step_never_returns:
  "run [SetThreadsCount 1, EmplaceProcess ''A'' 7 0 [cpu_event 3],
        EmplaceProcess ''B'' 7 0 [cpu_event 1], Step] (new_scheduler fcfs) = None
   \<and> run [SetThreadsCount 1, EmplaceProcess ''E'' 3 0 [], Step] (new_scheduler fcfs) = None"
  by (simp add: engine_defs ex_defs sidetrack_loop_stuck stuck_def)



text \<open>
  C3. The claim: \<open>start_time\<close> is written at most once, on the first dispatch into CPU
  execution, and is never cleared or changed afterwards. On the code, a process with the
  events \<open>Cpu 1, Io 1, Cpu 1\<close> has \<open>start_time = 0\<close> after the first step, and no
  \<open>start_time\<close> after the third: the second dispatch on a \<open>Cpu\<close> event finds the field
  set and assigns \<^verbatim>\<open>nullopt\<close>.
\<close>

theorem C3_start_time_cleared_on_second_cpu_dispatch:
  "map_option (\<lambda>s. start_time (heap s ! 0))
     (returned (run [SetThreadsCount 1, EmplaceProcess ''B'' 1 0 [cpu_event 1, io_event 1, cpu_event 1], Step]
        (new_scheduler fcfs))) = Some (Some 0)
   \<and> map_option (\<lambda>s. start_time (heap s ! 0))
     (returned (run [SetThreadsCount 1, EmplaceProcess ''B'' 1 0 [cpu_event 1, io_event 1, cpu_event 1], Step, Step, Step]
        (new_scheduler fcfs))) = Some None"
  by (simp add: engine_defs ex_defs)

text \<open>
  C4, as stated: after any spawns and any number of steps, \<open>restart\<close> leaves exactly the
  initially spawned processes pending. On the code, \<open>restart\<close> with no step before it
  stops on its assertion, and \<open>restart\<close> after one step, while the process (arrival 5) is
  still pending, leaves two copies of it pending: \<open>restart\<close> appends the backup to the
  pending queues and clears none of them.
\<close>

theorem C4_restart_with_pending_duplicates:
  "run [SetThreadsCount 1, EmplaceProcess ''A'' 0 5 [cpu_event 1], Restart]
       (new_scheduler fcfs) = Some (Inl AssertionFailed)
   \<and> map_option pending_multiset
     (returned (run [SetThreadsCount 1, EmplaceProcess ''A'' 0 5 [cpu_event 1], Step, Restart]
        (new_scheduler fcfs)))
   \<noteq> Some {#make_process ''A'' 0 5 [cpu_event 1]#}"
  by (simp add: restart_def pending_multiset_def pending_processes_unfold engine_defs ex_defs upt_rec)

text \<open>
  C4, amended: for every sequence of \<open>emplace_process\<close> calls followed by at least one
  \<open>step\<close>, if no process is pending when \<open>restart\<close> is called (as when \<open>complete\<close>
  holds), then \<open>restart\<close> returns, the multiset of pending processes is the multiset of
  the initially spawned processes, \<open>timer\<close>, \<open>throughput\<close> and \<open>finished\<close> are 0, 0
  and empty, and policy and configuration are the ones before the spawns.
\<close>

theorem C4_restart_restores_spawned:
  assumes "run (map (\<lambda>(n, p, a, es). EmplaceProcess n p a es) ps)
             ((new_scheduler policy)\<lparr>threads_count := tc\<rparr>) = Some (Inr s0)"
    and "steps (Suc k) s0 = Some (Inr s1)"
    and "\<forall>t<MAX_THREADS. processes s1 t = []"
  shows "\<exists>s2. restart s1 = Inr s2
       \<and> pending_multiset s2 = mset (map (\<lambda>(n, p, a, es). make_process n p a es) ps)
       \<and> timer s2 = 0 \<and> throughput s2 = 0 \<and> finished s2 = []
       \<and> schedule_policy s2 = policy \<and> threads_count s2 = tc
       \<and> max_processes s2 = SIZE_MAX \<and> max_events_per_process s2 = SIZE_MAX
       \<and> max_single_event_duration s2 = SIZE_MAX \<and> max_arrival_time s2 = SIZE_MAX"
proof -
  let ?i = "(new_scheduler policy)\<lparr>threads_count := tc\<rparr>"
  have nv: "\<not> valid_backup ?i" and b0: "backup_multiset ?i = {#}"
    by (simp_all add: new_scheduler_def backup_multiset_def)
  note sp = run_spawns[OF assms(1) nv]
  note fr = steps_frame[OF assms(2)]
  from fr have vb: "valid_backup s1" by (simp add: config_frame_def)
  from fr have bm: "backup_multiset s1 = backup_multiset s0"
    by (simp add: config_frame_def backup_multiset_def)
  from restart_empty_pending[OF vb assms(3)] obtain s2 where
    s2: "restart s1 = Inr s2" "pending_multiset s2 = backup_multiset s1"
      "timer s2 = 0" "throughput s2 = 0" "finished s2 = []"
      "schedule_policy s2 = schedule_policy s1" "threads_count s2 = threads_count s1"
      "max_processes s2 = max_processes s1"
      "max_events_per_process s2 = max_events_per_process s1"
      "max_single_event_duration s2 = max_single_event_duration s1"
      "max_arrival_time s2 = max_arrival_time s1"
    by blast
  from s2 sp fr bm b0 show ?thesis
    by (simp add: config_frame_def new_scheduler_def)
qed

text \<open>The amended C4 at one core, one process of one \<open>Cpu\<close> event of duration 3, four steps.\<close>

theorem C4_restart_restores_spawned_witness:
  "\<exists>s0 s1 s2.
     run (map (\<lambda>(n, p, a, es). EmplaceProcess n p a es) [(''A'', 0, 0, [cpu_event 3])])
       ((new_scheduler fcfs)\<lparr>threads_count := 1\<rparr>) = Some (Inr s0)
     \<and> steps (Suc 3) s0 = Some (Inr s1)
     \<and> restart s1 = Inr s2
     \<and> pending_multiset s2 = {#make_process ''A'' 0 0 [cpu_event 3]#}
     \<and> timer s2 = 0 \<and> throughput s2 = 0 \<and> finished s2 = []
     \<and> schedule_policy s2 = fcfs \<and> threads_count s2 = 1"
proof -
  have "\<exists>s0 s1.
     run (map (\<lambda>(n, p, a, es). EmplaceProcess n p a es) [(''A'', 0, 0, [cpu_event 3])])
       ((new_scheduler fcfs)\<lparr>threads_count := 1\<rparr>) = Some (Inr s0)
     \<and> steps (Suc 3) s0 = Some (Inr s1) \<and> (\<forall>t<MAX_THREADS. processes s1 t = [])"
    by (simp add: engine_defs ex_defs eval_nat_numeral)
  then obtain s0 s1 where h:
    "run (map (\<lambda>(n, p, a, es). EmplaceProcess n p a es) [(''A'', 0, 0, [cpu_event 3])])
       ((new_scheduler fcfs)\<lparr>threads_count := 1\<rparr>) = Some (Inr s0)"
    "steps (Suc 3) s0 = Some (Inr s1)" "\<forall>t<MAX_THREADS. processes s1 t = []"
    by blast
  from C4_restart_restores_spawned[OF h] h(1,2) show ?thesis by auto
qed

text \<open>
  C5, as stated: every assignment to \<open>threads_count\<close> is clamped into \<open>[1, 9]\<close>. On the
  code, the configuration key stores the parsed number as it is: \<open>threads_count = 12\<close>
  leaves 12 in the field, and the next \<open>step\<close> indexes the per-core arrays at 9.
\<close>

theorem C5_threads_count_not_clamped:
  "threads_count (sim (snd (constant_visitor ''threads_count'' (Number ''12'')
       (new_interp (new_scheduler fcfs))))) = 12
   \<and> step (sim (snd (constant_visitor ''threads_count'' (Number ''12'')
       (new_interp (new_scheduler fcfs))))) = Some (Inl OutOfBounds)"
  by (simp add: constant_visitor_def parse_number_def new_interp_def SIZE_MAX_def engine_defs ex_defs upt_rec)

text \<open>
  C5, amended: \<open>threads_count\<close> is 9 after construction; the configuration key
  \<open>threads_count\<close> stores the parsed number without clamping; and in every run of driver
  calls in which each value assigned to \<open>threads_count\<close> lies in \<open>[1, 9]\<close>, no call
  indexes a per-core array out of bounds or divides by zero, and in every state reached
  \<open>threads_count\<close> lies in \<open>[1, 9]\<close> and the placement cursor is below 9.
\<close>

theorem C5_threads_count_range_when_assigned_in_range:
  assumes "\<forall>c\<in>set calls. \<forall>n. c = SetThreadsCount n \<longrightarrow> 1 \<le> n \<and> n \<le> MAX_THREADS"
  shows "threads_count (new_scheduler policy) = MAX_THREADS
       \<and> constant_visitor ''threads_count'' (Number lexeme) i =
           (case parse_number lexeme of
              None \<Rightarrow> (None, i)
            | Some n \<Rightarrow> (Some VNone, i\<lparr>sim := (sim i)\<lparr>threads_count := n\<rparr>\<rparr>))
       \<and> run calls (new_scheduler policy) \<noteq> Some (Inl OutOfBounds)
       \<and> run calls (new_scheduler policy) \<noteq> Some (Inl DivisionByZero)
       \<and> (\<forall>s. run calls (new_scheduler policy) = Some (Inr s) \<longrightarrow>
            1 \<le> threads_count s \<and> threads_count s \<le> MAX_THREADS \<and> next_thread s < MAX_THREADS)"
proof -
  have "in_range (new_scheduler policy)"
    by (simp add: in_range_def new_scheduler_def MAX_THREADS_def)
  from run_in_range[OF this assms] show ?thesis
    by (auto simp: safe_outcome_def in_range_def new_scheduler_def constant_visitor_def
             split: option.splits)
qed

text \<open>The amended C5 on a run that assigns 2, spawns one process and steps once.\<close>

theorem C5_threads_count_range_when_assigned_in_range_witness:
  "\<exists>s. run [SetThreadsCount 2, EmplaceProcess ''A'' 0 0 [cpu_event 3], Step] (new_scheduler fcfs)
          = Some (Inr s)
     \<and> 1 \<le> threads_count s \<and> threads_count s \<le> MAX_THREADS \<and> next_thread s < MAX_THREADS
     \<and> threads_count (sim (snd (constant_visitor ''threads_count'' (Number ''2'')
          (new_interp (new_scheduler fcfs))))) = 2"
proof -
  have hyp: "\<forall>c\<in>set [SetThreadsCount 2, EmplaceProcess ''A'' 0 0 [cpu_event 3], Step].
               \<forall>n. c = SetThreadsCount n \<longrightarrow> 1 \<le> n \<and> n \<le> MAX_THREADS"
    by (simp add: MAX_THREADS_def)
  have "\<exists>s. run [SetThreadsCount 2, EmplaceProcess ''A'' 0 0 [cpu_event 3], Step] (new_scheduler fcfs)
          = Some (Inr s)"
    by (simp add: engine_defs ex_defs numeral_2_eq_2)
  moreover have "parse_number ''2'' = Some 2"
    by (simp add: parse_number_def SIZE_MAX_def)
  ultimately show ?thesis
    using C5_threads_count_range_when_assigned_in_range[OF hyp, of fcfs "''2''" "new_interp (new_scheduler fcfs)"]
    by auto
qed

text \<open>
  C6. The claim: every live process is owned by exactly one queue slot, and the policy
  never replaces a running process so that it is left in no slot. On the code, with two
  cores under First-Come-First-Served: \<open>A\<close> (handle 0) runs on core 0 after the first
  step; in the second step \<open>B\<close> arrives in \<open>ready[0]\<close>, core 1 becomes free and calls
  the policy, which pops \<open>B\<close> into \<open>running[0]\<close> over \<open>A\<close>. After that step \<open>A\<close> sits
  in no slot, is not finished, and still has four units of its event to serve.
\<close>

theorem C6_policy_displaces_running_process:
  "map_option (\<lambda>s. (slot_count 0 s, 0 \<in> set (finished s), events (heap s ! 0)))
     (returned (run [SetThreadsCount 2, EmplaceProcess ''A'' 0 0 [cpu_event 5],
                     EmplaceProcess ''X'' 1 0 [cpu_event 1], EmplaceProcess ''B'' 2 1 [cpu_event 1], Step]
        (new_scheduler fcfs))) = Some (1, False, [cpu_event 5])
   \<and> map_option (\<lambda>s. (slot_count 0 s, 0 \<in> set (finished s), events (heap s ! 0)))
     (returned (run [SetThreadsCount 2, EmplaceProcess ''A'' 0 0 [cpu_event 5],
                     EmplaceProcess ''X'' 1 0 [cpu_event 1], EmplaceProcess ''B'' 2 1 [cpu_event 1], Step, Step]
        (new_scheduler fcfs))) = Some (0, False, [cpu_event 4])"
  by (simp add: engine_defs ex_defs slot_count_unfold numeral_2_eq_2)

text \<open>
  C7. The claim: when the First-Come-First-Served policy is applied, every core whose
  ready queue is not empty gets the front of that queue as its running process. On the
  code, the loop returns at the first core whose ready queue is empty. With two cores,
  \<open>A\<close> on core 0 arriving at 5 and \<open>B\<close> on core 1 arriving at 0: in the first step,
  when core 1 calls the policy, \<open>ready[1]\<close> holds \<open>B\<close>, \<open>running[1]\<close> is empty,
  \<open>ready[0]\<close> is empty, and the policy changes nothing.
\<close>

theorem C7_fcfs_returns_at_first_empty_ready:
  "\<exists>s0 s1 s.
     run [SetThreadsCount 2, EmplaceProcess ''A'' 0 5 [cpu_event 1], EmplaceProcess ''B'' 1 0 [cpu_event 1]]
       (new_scheduler fcfs) = Some (Inr s0)
     \<and> step_thread 0 (s0\<lparr>valid_backup := True\<rparr>) = Some (Inr s1)
     \<and> sidetrack_processes 1 s1 = Some (Inr s)
     \<and> update_waiting_list 1 s = Inr s \<and> update_running 1 s = Inr s
     \<and> threads_count s = 2 \<and> ready s 1 = [1] \<and> running s 1 = None
     \<and> apply_schedule_policy s = Inr s"
  by (simp add: engine_defs ex_defs numeral_2_eq_2)

text \<open>
  C8. The claim: a builtin called with the wrong number of arguments reports a diagnostic
  and does not go on with the call; \<open>spawn_process\<close> with other than 4 arguments spawns
  nothing. On the code, \<open>spawn_process\<close> with 5 arguments reports the mismatch and then
  spawns the process from the first four; the next statement is evaluated as well.
\<close>

theorem C8_spawn_process_five_arguments_spawns:
  "\<exists>s. evaluate_ast no_random
          [ExpressionStatement
             (Call ''spawn_process''
                [StringLiteral ''A'', Number ''0'', Number ''0'',
                 List [Tuple [StringLiteral ''Cpu'', Number ''3'']], Number ''7'']),
           ExpressionStatement (Constant ''max_processes'' (Number ''4''))]
          (new_interp (new_scheduler fcfs)) = Some (Inr (Some True, s))
       \<and> stderr_log (sim s) = [ErrMismatchedArgc ''spawn_process'' 5]
       \<and> processes (sim s) 0 = [0]
       \<and> heap (sim s) = [make_process ''A'' 0 0 [cpu_event 3]]
       \<and> max_processes (sim s) = 4"
  by (simp add: evaluate_ast_def evaluate_statement_def is_builtin_def parse_number_def
        list_as_events_deque_def event_kind_try_from_str_def report_def constant_visitor_def
        no_random_def new_interp_def SIZE_MAX_def engine_defs ex_defs)

text \<open>
  C9, as stated: if \<open>complete\<close> holds in some state, every further \<open>step\<close> leaves
  \<open>finished\<close>, \<open>cpu_usage\<close> and the queues unchanged. On the code, a new scheduler
  whose \<open>threads_count\<close> has been set to 12 is complete, and its next \<open>step\<close> does
  not return a state: the loop over the cores indexes the 9-slot arrays at 9.
\<close>

theorem C9_complete_step_out_of_bounds:
  "run [SetThreadsCount 12] (new_scheduler fcfs)
     = Some (Inr ((new_scheduler fcfs)\<lparr>threads_count := 12\<rparr>))
   \<and> complete ((new_scheduler fcfs)\<lparr>threads_count := 12\<rparr>)
   \<and> step ((new_scheduler fcfs)\<lparr>threads_count := 12\<rparr>) = Some (Inl OutOfBounds)"
  by (simp add: engine_defs ex_defs upt_rec)

text \<open>
  C9, amended: in every state reached by driver calls from a new scheduler in which
  \<open>threads_count\<close> is at most 9: if \<open>complete\<close> holds, then any number of further
  \<open>step\<close> calls return and leave \<open>finished\<close>, every \<open>cpu_usage\<close> entry, every
  pending, ready and waiting queue, every running slot and the processes themselves
  unchanged (and \<open>complete\<close> still holds).
\<close>

theorem C9_complete_steps_change_nothing:
  assumes "run calls (new_scheduler policy) = Some (Inr s)"
    and "complete s" and "threads_count s \<le> MAX_THREADS"
  shows "\<exists>s'. steps n s = Some (Inr s') \<and> complete s' \<and> finished s' = finished s
        \<and> cpu_usage s' = cpu_usage s \<and> processes s' = processes s \<and> ready s' = ready s
        \<and> waiting s' = waiting s \<and> running s' = running s \<and> heap s' = heap s"
proof -
  from run_idle[OF new_scheduler_idle assms(1)] assms(2) have "cpu_usage s = (\<lambda>_. 0)"
    by (simp add: idle_inv_def)
  from steps_complete[OF assms(2) this assms(3)] show ?thesis .
qed

text \<open>The amended C9 on the state after the single process of scenario 1 has finished.\<close>

theorem C9_complete_steps_change_nothing_witness:
  "\<exists>s. run [SetThreadsCount 1, EmplaceProcess ''A'' 0 0 [cpu_event 3], Step, Step, Step, Step]
          (new_scheduler fcfs) = Some (Inr s)
     \<and> complete s \<and> threads_count s \<le> MAX_THREADS
     \<and> (\<exists>s'. steps 2 s = Some (Inr s') \<and> complete s' \<and> finished s' = finished s
          \<and> cpu_usage s' = cpu_usage s \<and> processes s' = processes s \<and> ready s' = ready s
          \<and> waiting s' = waiting s \<and> running s' = running s \<and> heap s' = heap s)"
proof -
  have "\<exists>s. run [SetThreadsCount 1, EmplaceProcess ''A'' 0 0 [cpu_event 3], Step, Step, Step, Step]
          (new_scheduler fcfs) = Some (Inr s) \<and> complete s \<and> threads_count s \<le> MAX_THREADS"
    by (simp add: engine_defs ex_defs)
  then obtain s where h:
    "run [SetThreadsCount 1, EmplaceProcess ''A'' 0 0 [cpu_event 3], Step, Step, Step, Step]
          (new_scheduler fcfs) = Some (Inr s)" "complete s" "threads_count s \<le> MAX_THREADS"
    by blast
  from C9_complete_steps_change_nothing[OF h, of 2] h show ?thesis by blast
qed

text \<open>
  C10, as stated: an element list of fewer than two values is indexed out of bounds
  rather than rejected with a diagnostic. On the code, the one-element list \<open>[3]\<close> is
  rejected with the note diagnostic: index 0 is in bounds and is not a string, so the
  conversion returns before it reads index 1.
\<close>

theorem C10_single_non_string_rejected:
  "list_as_events_deque no_random [VList [VNumber 3]] (new_interp (new_scheduler fcfs))
     = Inr (None, report NoteEventsExample (new_interp (new_scheduler fcfs)))"
  by (simp add: list_as_events_deque_def)

text \<open>
  C10, amended: in the conversion of the events argument each element is only asked to
  be a value list before its indices 0 and 1 are read, and no length is checked. If
  every element that is a value list has at least two values, no index is out of bounds
  (the conversion returns). An empty element list is indexed out of bounds at 0; a
  one-element list whose value is a string is indexed out of bounds at 1; a one-element
  list whose value is not a string is rejected with the note diagnostic before index 1 is
  read.
\<close>

theorem C10_events_tuple_indexing:
  "((\<forall>v\<in>set list. \<forall>tuple. v = VList tuple \<longrightarrow> 2 \<le> length tuple) \<longrightarrow>
      (\<exists>r. list_as_events_deque rs list s = Inr r))
   \<and> list_as_events_deque rs (VList [] # rest) s = Inl OutOfBounds
   \<and> list_as_events_deque rs (VList [VString str] # rest) s = Inl OutOfBounds
   \<and> ((\<forall>str. v \<noteq> VString str) \<longrightarrow>
        list_as_events_deque rs (VList [v] # rest) s = Inr (None, report NoteEventsExample s))"
  using list_as_events_loop_in_bounds[of list rs "[]" s]
  by (auto simp: list_as_events_deque_def split: Value.splits)

text \<open>The amended C10 on a list of two well-formed elements and on the element \<open>[None]\<close>.\<close>

theorem C10_events_tuple_indexing_witness:
  "(\<exists>r. list_as_events_deque no_random [VList [VString ''Cpu'', VNumber 3], VList [VString ''Io'', VNumber 2, VNone]]
          (new_interp (new_scheduler fcfs)) = Inr r)
   \<and> list_as_events_deque no_random [VList [VNone]] (new_interp (new_scheduler fcfs))
       = Inr (None, report NoteEventsExample (new_interp (new_scheduler fcfs)))"
  using C10_events_tuple_indexing[of "[VList [VString ''Cpu'', VNumber 3], VList [VString ''Io'', VNumber 2, VNone]]"
                   no_random "new_interp (new_scheduler fcfs)" "[]" "''x''" VNone]
  by simp

end
